theory Spec2Isabelle
  imports
    Complex_Main
    "HOL-Library.Sublist"
    "HOL-Library.Char_ord"
    "HOL-Library.List_Lexorder"
    "HOL-Library.Multiset"
    "HOL-Library.Monad_Syntax"
    "HOL-Library.Code_Target_Nat"
begin

section \<open>Strings\<close>

text \<open>
  A JavaScript string is a sequence of UTF-16 code units. The model keeps the code units
  below 256 (\<^typ>\<open>char\<close>), which covers every pattern the generator looks for; the
  order on \<^typ>\<open>string\<close> is the lexicographic order of the code units. On the time
  strings the schema lets through (digits around a colon) \<open>localeCompare\<close> agrees with it.
\<close>

definition includes_str :: "string \<Rightarrow> string \<Rightarrow> bool" where
  \<comment> \<open>\<open>s.includes(t)\<close>\<close>
  "includes_str s t = sublist t s"

definition startsWith :: "string \<Rightarrow> string \<Rightarrow> bool" where
  "startsWith s p = prefix p s"

definition is_space :: "char \<Rightarrow> bool" where
  \<comment> \<open>white space and line terminators of ECMAScript below 256: TAB, LF, VT, FF, CR, SP, NBSP\<close>
  "is_space c = ((of_char c :: nat) \<in> {9, 10, 11, 12, 13, 32, 160})"

definition trim :: "string \<Rightarrow> string" where
  "trim s = rev (dropWhile is_space (rev (dropWhile is_space s)))"

definition lower_char :: "char \<Rightarrow> char" where
  "lower_char c =
     (let n = (of_char c :: nat)
      in if (65 \<le> n \<and> n \<le> 90) \<or> (192 \<le> n \<and> n \<le> 222 \<and> n \<noteq> 215)
         then char_of (n + 32) else c)"

definition toLowerCase :: "string \<Rightarrow> string" where
  "toLowerCase s = map lower_char s"

definition is_digit :: "char \<Rightarrow> bool" where
  \<comment> \<open>the class \<open>\\d\<close>\<close>
  "is_digit c = (CHR ''0'' \<le> c \<and> c \<le> CHR ''9'')"

definition digit_char :: "nat \<Rightarrow> char" where
  "digit_char n = char_of (48 + n)"

fun show_nat :: "nat \<Rightarrow> string" where
  "show_nat n = (if n < 10 then [digit_char n] else show_nat (n div 10) @ [digit_char (n mod 10)])"

declare show_nat.simps [simp del]

text \<open>
  A number inside a template literal is printed by \<open>Number::toString\<close>. A number of the
  source is a double, and an integer of the model stands for the double nearest to it
  (ties go to the even significand, and past the largest double lies \<open>Infinity\<close>). The
  digits printed are those of the shortest decimal that reads back as the same double, and
  of the decimals of that length the nearest; below \<open>10 ^ 21\<close> all the digits are
  printed, from there on the number is printed with an exponent. Below \<open>2 ^ 53\<close> these
  are the digits of the integer itself.
\<close>

fun bit_length :: "nat \<Rightarrow> nat" where
  "bit_length n = (if n = 0 then 0 else Suc (bit_length (n div 2)))"

declare bit_length.simps [simp del]

definition nearest_double :: "nat \<Rightarrow> nat" where
  \<comment> \<open>a significand of 53 bits, rounded to nearest, ties to even\<close>
  "nearest_double y =
     (let u = 2 ^ (bit_length y - 53); q = y div u; r = y mod u
      in if 2 * r < u \<or> (2 * r = u \<and> even q) then q * u else (q + 1) * u)"

fun shortest_decimal :: "nat \<Rightarrow> nat \<Rightarrow> nat" where
  \<comment> \<open>the first of the multiples of \<open>10 ^ e\<close>, \<open>10 ^ (e - 1)\<close>, ... that reads back as
      the double \<open>x\<close>; of two such multiples the nearer one, and the even one when they
      are as near\<close>
  "shortest_decimal x 0 = x"
| "shortest_decimal x (Suc e) =
     (let p = 10 ^ Suc e; lo = x div p * p; hi = lo + p
      in if nearest_double lo = x \<and>
            (nearest_double hi \<noteq> x \<or> x - lo < hi - x \<or> (x - lo = hi - x \<and> even (lo div p)))
         then lo
         else if nearest_double hi = x then hi
         else shortest_decimal x e)"

definition Number_toString :: "nat \<Rightarrow> string" where
  "Number_toString y =
     (let x = nearest_double y
      in if 2 ^ 1024 \<le> x then ''Infinity''
         else
           (let digits = show_nat (shortest_decimal x (length (show_nat x) - 1));
                s = rev (dropWhile (\<lambda>c. c = CHR ''0'') (rev digits))
            in if length digits \<le> 21 then digits
               else hd s # (if tl s = [] then [] else CHR ''.'' # tl s)
                      @ ''e+'' @ show_nat (length digits - 1)))"

definition show_int :: "int \<Rightarrow> string" where
  \<comment> \<open>a number inside a template literal\<close>
  "show_int i = (if i < 0 then CHR ''-'' # Number_toString (nat (- i)) else Number_toString (nat i))"


section \<open>Data model\<close>

record Activity =
  time :: string
  name :: string
  location :: string
  description :: string

record DailySchedule =
  day :: int
  activities :: "Activity list"

datatype Category = Place | Restaurant | Experience

text \<open>What \<open>RecommendationSchema\<close> yields; the generator adds \<open>id\<close> afterwards.\<close>

record RecommendationData =
  category :: Category
  rec_name :: string
  rec_description :: string
  rec_location :: "string option"

record Recommendation = RecommendationData +
  rec_id :: string

record ItineraryResponse =
  resp_dailySchedules :: "DailySchedule list"
  resp_recommendations :: "RecommendationData list"

record Itinerary =
  itinerary_id :: string
  destination :: string
  duration :: int
  dailySchedules :: "DailySchedule list"
  recommendations :: "Recommendation list"
  generatedAt :: nat

record TripInput =
  input_destination :: string
  input_duration :: int


section \<open>Parsed JSON and the Zod schemas\<close>

text \<open>
  The value \<open>JSON.parse\<close> returns. A number is the exact value of the double; an object
  is the list of its own properties, one entry per key.
\<close>

datatype json =
    JNull
  | JBool bool
  | JNum rat
  | JStr string
  | JArr "json list"
  | JObj "(string \<times> json) list"

fun z_string :: "json \<Rightarrow> string option" where
  "z_string (JStr s) = Some s"
| "z_string _ = None"

definition time_regex :: "string \<Rightarrow> bool" where
  \<comment> \<open>\<open>/^\\d{2}:\\d{2}$/\<close>\<close>
  "time_regex s =
     (length s = 5 \<and> is_digit (s ! 0) \<and> is_digit (s ! 1) \<and> s ! 2 = CHR '':''
        \<and> is_digit (s ! 3) \<and> is_digit (s ! 4))"

fun z_time :: "json \<Rightarrow> string option" where
  \<comment> \<open>\<open>z.string().regex(...)\<close>\<close>
  "z_time (JStr s) = (if time_regex s then Some s else None)"
| "z_time _ = None"

fun z_int_positive :: "json \<Rightarrow> int option" where
  \<comment> \<open>\<open>z.number().int().positive()\<close>\<close>
  "z_int_positive (JNum q) = (if of_int \<lfloor>q\<rfloor> = q \<and> 0 < q then Some \<lfloor>q\<rfloor> else None)"
| "z_int_positive _ = None"

fun z_category :: "json \<Rightarrow> Category option" where
  \<comment> \<open>\<open>z.enum(['place', 'restaurant', 'experience'])\<close>\<close>
  "z_category (JStr s) =
     (if s = ''place'' then Some Place
      else if s = ''restaurant'' then Some Restaurant
      else if s = ''experience'' then Some Experience
      else None)"
| "z_category _ = None"

definition required :: "(string \<times> json) list \<Rightarrow> string \<Rightarrow> (json \<Rightarrow> 'a option) \<Rightarrow> 'a option" where
  \<comment> \<open>a key of \<open>z.object\<close>: a missing key is \<open>undefined\<close>, which no schema here accepts\<close>
  "required props k schema = (case map_of props k of None \<Rightarrow> None | Some v \<Rightarrow> schema v)"

definition optional :: "(string \<times> json) list \<Rightarrow> string \<Rightarrow> (json \<Rightarrow> 'a option) \<Rightarrow> 'a option option" where
  \<comment> \<open>a key under \<open>.optional()\<close>: missing is fine, present must satisfy the schema\<close>
  "optional props k schema =
     (case map_of props k of None \<Rightarrow> Some None | Some v \<Rightarrow> map_option Some (schema v))"

definition z_array :: "(json \<Rightarrow> 'a option) \<Rightarrow> json \<Rightarrow> 'a list option" where
  "z_array schema v = (case v of JArr vs \<Rightarrow> those (map schema vs) | _ \<Rightarrow> None)"

definition z_min :: "nat \<Rightarrow> 'a list option \<Rightarrow> 'a list option" where
  \<comment> \<open>\<open>.min(n)\<close> on an array schema\<close>
  "z_min n r = (case r of None \<Rightarrow> None | Some xs \<Rightarrow> if n \<le> length xs then Some xs else None)"

text \<open>
  \<open>z.object\<close> copies the keys of its shape and drops every other key of the input. Zod
  checks every key and throws when one of them fails; as to what is accepted, and with what
  result, that is the sequence below.
\<close>

definition ActivitySchema :: "json \<Rightarrow> Activity option" where
  "ActivitySchema v =
     (case v of
        JObj props \<Rightarrow>
          do {
            t \<leftarrow> required props ''time'' z_time;
            n \<leftarrow> required props ''name'' z_string;
            l \<leftarrow> required props ''location'' z_string;
            d \<leftarrow> required props ''description'' z_string;
            Some \<lparr>time = t, name = n, location = l, description = d\<rparr>
          }
      | _ \<Rightarrow> None)"

definition DailyScheduleSchema :: "json \<Rightarrow> DailySchedule option" where
  "DailyScheduleSchema v =
     (case v of
        JObj props \<Rightarrow>
          do {
            d \<leftarrow> required props ''day'' z_int_positive;
            acts \<leftarrow> required props ''activities'' (\<lambda>a. z_min 3 (z_array ActivitySchema a));
            Some \<lparr>day = d, activities = acts\<rparr>
          }
      | _ \<Rightarrow> None)"

definition RecommendationSchema :: "json \<Rightarrow> RecommendationData option" where
  "RecommendationSchema v =
     (case v of
        JObj props \<Rightarrow>
          do {
            c \<leftarrow> required props ''category'' z_category;
            n \<leftarrow> required props ''name'' z_string;
            d \<leftarrow> required props ''description'' z_string;
            l \<leftarrow> optional props ''location'' z_string;
            Some \<lparr>category = c, rec_name = n, rec_description = d, rec_location = l\<rparr>
          }
      | _ \<Rightarrow> None)"

definition ItineraryResponseSchema :: "json \<Rightarrow> ItineraryResponse option" where
  "ItineraryResponseSchema v =
     (case v of
        JObj props \<Rightarrow>
          do {
            ds \<leftarrow> required props ''dailySchedules'' (z_array DailyScheduleSchema);
            rs \<leftarrow> required props ''recommendations'' (z_array RecommendationSchema);
            Some \<lparr>resp_dailySchedules = ds, resp_recommendations = rs\<rparr>
          }
      | _ \<Rightarrow> None)"


section \<open>Failures\<close>

text \<open>
  Every error of the source is an \<open>Error\<close> object the code only reads the message of. A
  constructor stands for the place that throws; the messages of the model client, of
  \<open>JSON.parse\<close> and of Zod are not fixed by this repository and are carried along.
\<close>

datatype gen_error =
    ClientError string
  | RequestTimeout
  | EmptyResponse
  | SyntaxError string
  | NoValidJson
  | ZodError string
  | DaysMismatch int nat
  | AllModelsFailed

fun message :: "gen_error \<Rightarrow> string" where
  "message (ClientError m) = m"
| "message RequestTimeout = ''Request timeout''"
| "message EmptyResponse = ''Empty response from AI''"
| "message (SyntaxError m) = m"
| "message NoValidJson = ''No valid JSON found in AI response''"
| "message (ZodError m) = m"
| "message (DaysMismatch d n) = ''Expected '' @ show_int d @ '' days but got '' @ show_nat n"
| "message AllModelsFailed = ''All models failed''"

text \<open>
  The five messages \<open>handleError\<close> can return, named by what they tell the user: the plan
  took too long; the system is busy; the connection to the AI failed; the AI model is not
  available; the plan could not be created.
\<close>

datatype error_kind = Timeout | RateLimit | Auth | ModelUnavailable | Unknown

datatype failure =
    DestinationRequired
  | DurationTooSmall
  | Classified error_kind


section \<open>The response parser\<close>

definition strip_fence_end :: "string \<Rightarrow> string" where
  \<comment> \<open>\<open>.replace(/\\s*```$/, '')\<close>: the leftmost match is the closing fence with all the
      white space before it\<close>
  "strip_fence_end s =
     (if suffix ''```'' s then rev (dropWhile is_space (rev (take (length s - 3) s))) else s)"

definition strip_fences :: "string \<Rightarrow> string" where
  "strip_fences jsonText =
     (if startsWith jsonText ''```json'' then strip_fence_end (dropWhile is_space (drop 7 jsonText))
      else if startsWith jsonText ''```'' then strip_fence_end (dropWhile is_space (drop 3 jsonText))
      else jsonText)"

definition match_braces :: "string \<Rightarrow> string option" where
  \<comment> \<open>\<open>text.match(/\\{[\\s\\S]*\\}/)\<close>: from the first opening brace, as far as the star can
      reach, back to a closing brace\<close>
  "match_braces text =
     (let from_open = dropWhile (\<lambda>c. c \<noteq> CHR ''{'') text;
          to_close = rev (dropWhile (\<lambda>c. c \<noteq> CHR ''}'') (rev from_open))
      in if to_close = [] then None else Some to_close)"

definition parseAIResponse :: "(string \<Rightarrow> string + json) \<Rightarrow> string \<Rightarrow> gen_error + json" where
  "parseAIResponse parse text =
     (let jsonText = strip_fences (trim text)
      in case parse jsonText of
           Inr v \<Rightarrow> Inr v
         | Inl _ \<Rightarrow>
             (case match_braces text of
                Some jsonMatch \<Rightarrow>
                  (case parse jsonMatch of Inr v \<Rightarrow> Inr v | Inl m \<Rightarrow> Inl (SyntaxError m))
              | None \<Rightarrow> Inl NoValidJson))"


section \<open>One call of a model\<close>

text \<open>
  What lies outside the repository: the model client (what the \<open>n\<close>-th call of a run, to a
  given model, comes to: it rejects with an \<open>Error\<close> of some message, it responds, or it
  is still pending at the deadline; \<open>Responds\<close> carries the text the code finds in the
  SDK's response, empty when it finds none),
  \<open>JSON.parse\<close> (the message of its \<open>SyntaxError\<close> on the left), the message Zod puts
  on a value it rejects, the identifiers \<open>generateId\<close> draws (the \<open>k\<close>-th of the
  \<open>n\<close>-th call) and the clock. The prompt is the same for every call of a run and is
  left out.
\<close>

datatype client_outcome = Rejects string | Responds string | TimesOut

record env =
  client :: "nat \<Rightarrow> string \<Rightarrow> client_outcome"
  JSON_parse :: "string \<Rightarrow> string + json"
  zod_message :: "json \<Rightarrow> string"
  generateId :: "nat \<Rightarrow> nat \<Rightarrow> string"
  now :: "nat \<Rightarrow> nat"

definition sort_activities :: "DailySchedule \<Rightarrow> DailySchedule" where
  \<comment> \<open>\<open>schedule.activities.sort((a, b) => a.time.localeCompare(b.time))\<close>, a stable sort\<close>
  "sort_activities schedule = schedule\<lparr>activities := sort_key time (activities schedule)\<rparr>"

definition with_id :: "string \<Rightarrow> RecommendationData \<Rightarrow> Recommendation" where
  \<comment> \<open>\<open>{ ...rec, id }\<close>\<close>
  "with_id i r = RecommendationData.extend r \<lparr>rec_id = i\<rparr>"

definition build_itinerary :: "env \<Rightarrow> nat \<Rightarrow> string \<Rightarrow> int \<Rightarrow> gen_error + json \<Rightarrow> gen_error + Itinerary" where
  \<comment> \<open>lines 146 to 168 of \<open>callGeminiAPI\<close>, from the parser's result on\<close>
  "build_itinerary e n dest dur parsed =
     (case parsed of
        Inl err \<Rightarrow> Inl err
      | Inr itineraryData \<Rightarrow>
          (case ItineraryResponseSchema itineraryData of
             None \<Rightarrow> Inl (ZodError (zod_message e itineraryData))
           | Some validated \<Rightarrow>
               (let schedules = map sort_activities (resp_dailySchedules validated)
                in if int (length schedules) \<noteq> dur
                   then Inl (DaysMismatch dur (length schedules))
                   else Inr \<lparr>itinerary_id = generateId e n 0,
                             destination = dest,
                             duration = dur,
                             dailySchedules = schedules,
                             recommendations =
                               map (\<lambda>(k, r). with_id (generateId e n (Suc k)) r)
                                 (enumerate 0 (resp_recommendations validated)),
                             generatedAt = now e n\<rparr>)))"

definition callGeminiAPI ::
  "env \<Rightarrow> nat \<Rightarrow> string \<Rightarrow> string \<Rightarrow> int \<Rightarrow> (gen_error + Itinerary) option"
where
  \<comment> \<open>what the promise settles to, \<open>None\<close> when it has not settled by the deadline\<close>
  "callGeminiAPI e n model dest dur =
     (case client e n model of
        Rejects m \<Rightarrow> Some (Inl (ClientError m))
      | TimesOut \<Rightarrow> None
      | Responds generatedText \<Rightarrow>
          Some (if generatedText = [] then Inl EmptyResponse
                else build_itinerary e n dest dur (parseAIResponse (JSON_parse e) generatedText)))"

definition generateWithTimeout :: "env \<Rightarrow> nat \<Rightarrow> string \<Rightarrow> string \<Rightarrow> int \<Rightarrow> gen_error + Itinerary" where
  \<comment> \<open>\<open>Promise.race\<close> of the call with \<open>timeoutPromise\<close>\<close>
  "generateWithTimeout e n model dest dur =
     (case callGeminiAPI e n model dest dur of
        Some outcome \<Rightarrow> outcome
      | None \<Rightarrow> Inl RequestTimeout)"


section \<open>The cascade\<close>

definition FALLBACK_MODELS :: "string list" where
  "FALLBACK_MODELS = [''gemini-2.5-flash'', ''gemini-2.5-pro'', ''gemini-1.5-pro'', ''gemini-1.5-flash'']"

record config =
  maxRetries :: nat
  retryDelay :: nat
  timeout :: nat

definition ItineraryGenerator :: config where
  "ItineraryGenerator = \<lparr>maxRetries = 3, retryDelay = 1000, timeout = 45000\<rparr>"

definition is_not_found :: "gen_error \<Rightarrow> bool" where
  \<comment> \<open>the test of line 79\<close>
  "is_not_found err = (includes_str (message err) ''not found'' \<or> includes_str (message err) ''404'')"

definition isRetryableError :: "gen_error \<Rightarrow> bool" where
  "isRetryableError err =
     (let msg = toLowerCase (message err)
      in list_ex (\<lambda>t. includes_str msg t)
           [''timeout'', ''rate limit'', ''429'', ''503'', ''network'', ''unavailable''])"

definition handleError :: "gen_error \<Rightarrow> error_kind" where
  "handleError err =
     (let msg = (if message err = [] then ''Unknown error'' else message err)
      in if includes_str msg ''timeout'' then Timeout
         else if includes_str msg ''rate limit'' \<or> includes_str msg ''429'' then RateLimit
         else if includes_str msg ''API key'' \<or> includes_str msg ''401'' then Auth
         else if includes_str msg ''not found'' \<or> includes_str msg ''404'' then ModelUnavailable
         else Unknown)"

text \<open>What a run does that a caller can observe besides its result.\<close>

datatype event = Invoke string | Sleep nat

record run_state =
  lastError :: "gen_error option"
  calls :: nat
  trace :: "event list"

text \<open>
  The inner loop, from attempt \<open>attempt\<close> on (the loop starts it at 1): \<open>Some\<close> is the
  \<open>return\<close> of line 73, \<open>None\<close> is leaving the loop (a \<open>break\<close>, or the loop condition
  failing). The state counts the calls and records them, with the delays, in order.
\<close>

function attempts ::
  "config \<Rightarrow> env \<Rightarrow> string \<Rightarrow> int \<Rightarrow> string \<Rightarrow> nat \<Rightarrow> run_state \<Rightarrow> Itinerary option \<times> run_state"
where
  "attempts cfg e dest dur model attempt st =
     (if attempt \<le> maxRetries cfg then
        (case generateWithTimeout e (calls st) model dest dur of
           Inr result \<Rightarrow>
             (Some result, st\<lparr>calls := Suc (calls st), trace := trace st @ [Invoke model]\<rparr>)
         | Inl err \<Rightarrow>
             if is_not_found err then
               (None, st\<lparr>lastError := Some err, calls := Suc (calls st),
                          trace := trace st @ [Invoke model]\<rparr>)
             else if isRetryableError err \<and> attempt < maxRetries cfg then
               attempts cfg e dest dur model (attempt + 1)
                 (st\<lparr>lastError := Some err, calls := Suc (calls st),
                     trace := trace st @ [Invoke model, Sleep (retryDelay cfg * 2 ^ (attempt - 1))]\<rparr>)
             else
               (None, st\<lparr>lastError := Some err, calls := Suc (calls st),
                          trace := trace st @ [Invoke model]\<rparr>))
      else (None, st))"
  by pat_completeness auto
termination
  by (relation "measure (\<lambda>(cfg, e, dest, dur, model, attempt, st). Suc (maxRetries cfg) - attempt)")
     auto

declare attempts.simps [simp del]

fun try_models ::
  "config \<Rightarrow> env \<Rightarrow> string \<Rightarrow> int \<Rightarrow> string list \<Rightarrow> run_state \<Rightarrow> Itinerary option \<times> run_state"
where
  "try_models cfg e dest dur [] st = (None, st)"
| "try_models cfg e dest dur (model # models) st =
     (case attempts cfg e dest dur model 1 st of
        (Some result, st') \<Rightarrow> (Some result, st')
      | (None, st') \<Rightarrow> try_models cfg e dest dur models st')"

definition initial_state :: run_state where
  "initial_state = \<lparr>lastError = None, calls = 0, trace = []\<rparr>"

definition generate_with :: "config \<Rightarrow> string list \<Rightarrow> env \<Rightarrow> TripInput \<Rightarrow> (failure + Itinerary) \<times> event list" where
  \<comment> \<open>\<open>generateItinerary\<close> for any retry settings and any list of models\<close>
  "generate_with cfg models e input =
     (if trim (input_destination input) = [] then (Inl DestinationRequired, [])
      else if input_duration input < 1 then (Inl DurationTooSmall, [])
      else
        (case try_models cfg e (input_destination input) (input_duration input) models initial_state of
           (Some result, st) \<Rightarrow> (Inr result, trace st)
         | (None, st) \<Rightarrow>
             (Inl (Classified (handleError
                     (case lastError st of None \<Rightarrow> AllModelsFailed | Some err \<Rightarrow> err))),
              trace st)))"

definition generateItinerary :: "env \<Rightarrow> TripInput \<Rightarrow> (failure + Itinerary) \<times> event list" where
  "generateItinerary = generate_with ItineraryGenerator FALLBACK_MODELS"


section \<open>Reading a run and a parsed response\<close>

definition invocations :: "event list \<Rightarrow> string list" where
  \<comment> \<open>the models a run called, one entry per call, in order\<close>
  "invocations tr = concat (map (\<lambda>ev. case ev of Invoke m \<Rightarrow> [m] | Sleep _ \<Rightarrow> []) tr)"

definition json_field :: "string \<Rightarrow> json \<Rightarrow> json option" where
  "json_field k v = (case v of JObj props \<Rightarrow> map_of props k | _ \<Rightarrow> None)"

definition json_items :: "json option \<Rightarrow> json list" where
  "json_items v = (case v of Some (JArr vs) \<Rightarrow> vs | _ \<Rightarrow> [])"

definition response_schedules :: "json \<Rightarrow> json list" where
  "response_schedules v = json_items (json_field ''dailySchedules'' v)"

definition schedule_activities :: "json \<Rightarrow> json list" where
  "schedule_activities v = json_items (json_field ''activities'' v)"

definition response_recommendations :: "json \<Rightarrow> json list" where
  "response_recommendations v = json_items (json_field ''recommendations'' v)"

definition same_activity :: "json \<Rightarrow> Activity \<Rightarrow> bool" where
  \<comment> \<open>the four fields of the activity are those of the parsed object\<close>
  "same_activity v a =
     (json_field ''time'' v = Some (JStr (time a)) \<and> json_field ''name'' v = Some (JStr (name a))
      \<and> json_field ''location'' v = Some (JStr (location a))
      \<and> json_field ''description'' v = Some (JStr (description a)))"

fun category_name :: "Category \<Rightarrow> string" where
  "category_name Place = ''place''"
| "category_name Restaurant = ''restaurant''"
| "category_name Experience = ''experience''"

definition same_recommendation :: "json \<Rightarrow> 'a RecommendationData_scheme \<Rightarrow> bool" where
  "same_recommendation v r =
     (json_field ''category'' v = Some (JStr (category_name (category r)))
      \<and> json_field ''name'' v = Some (JStr (rec_name r))
      \<and> json_field ''description'' v = Some (JStr (rec_description r))
      \<and> json_field ''location'' v = map_option JStr (rec_location r))"


section \<open>The parser as the specification words it\<close>

text \<open>
  The specification's third step takes the first balanced \<open>{...}\<close> substring: from an
  opening brace to the brace that closes it. \<open>closing d cs\<close> is the length of the shortest
  prefix of \<open>cs\<close> that closes \<open>d\<close> open braces.
\<close>

fun closing :: "nat \<Rightarrow> string \<Rightarrow> nat option" where
  "closing d [] = None"
| "closing d (c # cs) =
     (if c = CHR ''{'' then map_option Suc (closing (Suc d) cs)
      else if c = CHR ''}'' then (if d \<le> 1 then Some 1 else map_option Suc (closing (d - 1) cs))
      else map_option Suc (closing d cs))"

fun spec_first_balanced :: "string \<Rightarrow> string option" where
  "spec_first_balanced [] = None"
| "spec_first_balanced (c # cs) =
     (if c = CHR ''{'' then
        (case closing 1 cs of Some n \<Rightarrow> Some (c # take n cs) | None \<Rightarrow> spec_first_balanced cs)
      else spec_first_balanced cs)"

definition spec_parseAIResponse :: "(string \<Rightarrow> string + json) \<Rightarrow> string \<Rightarrow> gen_error + json" where
  "spec_parseAIResponse parse text =
     (let jsonText = strip_fences (trim text)
      in case parse jsonText of
           Inr v \<Rightarrow> Inr v
         | Inl _ \<Rightarrow>
             (case spec_first_balanced text of
                Some block \<Rightarrow>
                  (case parse block of Inr v \<Rightarrow> Inr v | Inl m \<Rightarrow> Inl (SyntaxError m))
              | None \<Rightarrow> Inl NoValidJson))"


section \<open>Sample responses and clients\<close>

definition sample_activity :: "string \<Rightarrow> string \<Rightarrow> json" where
  "sample_activity t n =
     JObj [(''time'', JStr t), (''name'', JStr n), (''location'', JStr ''b''),
           (''description'', JStr ''c'')]"

definition sample_day :: "rat \<Rightarrow> string \<Rightarrow> json" where
  \<comment> \<open>one day with three activities, the first of them at the given time\<close>
  "sample_day d t =
     JObj [(''day'', JNum d),
           (''activities'', JArr [sample_activity t ''x'', sample_activity ''09:00'' ''y'',
                                  sample_activity ''12:00'' ''z''])]"

definition sample_response :: "rat \<Rightarrow> string \<Rightarrow> json" where
  "sample_response d t =
     JObj [(''dailySchedules'', JArr [sample_day d t]),
           (''recommendations'',
              JArr [JObj [(''category'', JStr ''place''), (''name'', JStr ''p''),
                          (''description'', JStr ''q'')]])]"

definition sample_text :: string where
  \<open>sample_text =
     ''{"dailySchedules":[{"day":1,"activities":['' @
     ''{"time":"14:00","name":"x","location":"b","description":"c"},'' @
     ''{"time":"09:00","name":"y","location":"b","description":"c"},'' @
     ''{"time":"12:00","name":"z","location":"b","description":"c"}]}],'' @
     ''"recommendations":[{"category":"place","name":"p","description":"q"}]}''\<close>

definition extra_keys_response :: json where
  \<comment> \<open>\<open>sample_response 1 ''14:00''\<close> with an \<open>icon\<close> on the first activity and an \<open>id\<close> on
      the recommendation\<close>
  "extra_keys_response =
     JObj [(''dailySchedules'',
              JArr [JObj [(''day'', JNum 1),
                          (''activities'',
                             JArr [JObj [(''time'', JStr ''14:00''), (''name'', JStr ''x''),
                                         (''location'', JStr ''b''), (''description'', JStr ''c''),
                                         (''icon'', JStr ''museum'')],
                                   sample_activity ''09:00'' ''y'',
                                   sample_activity ''12:00'' ''z''])]]),
           (''recommendations'',
              JArr [JObj [(''category'', JStr ''place''), (''name'', JStr ''p''),
                          (''description'', JStr ''q''), (''id'', JStr ''r1'')]])]"

definition fenced_sample_text :: string where
  \<comment> \<open>\<open>sample_text\<close> inside a Markdown fence, on a line of its own\<close>
  "fenced_sample_text = ''```json'' @ [CHR 0x0A] @ sample_text @ [CHR 0x0A] @ ''```''"

definition two_objects :: string where
  \<open>two_objects = ''{"a":1} {"b":2}''\<close>

definition sample_JSON_parse :: "string \<Rightarrow> string + json" where
  \<comment> \<open>\<open>JSON.parse\<close> on the texts of this section\<close>
  \<open>sample_JSON_parse s =
     (if s = sample_text then Inr (sample_response 1 ''14:00'')
      else if s = ''{"a":1}'' then Inr (JObj [(''a'', JNum 1)])
      else Inl ''Unexpected token'')\<close>

definition sample_env :: "(nat \<Rightarrow> string \<Rightarrow> client_outcome) \<Rightarrow> env" where
  "sample_env c =
     \<lparr>client = c, JSON_parse = sample_JSON_parse, zod_message = (\<lambda>v. ''Required''),
      generateId = (\<lambda>n k. ''id-'' @ show_nat n @ ''-'' @ show_nat k), now = (\<lambda>n. n)\<rparr>"

definition unauthorized :: "nat \<Rightarrow> string \<Rightarrow> client_outcome" where
  "unauthorized n model = Rejects ''401 API key not valid''"

definition unauthorized_once :: "nat \<Rightarrow> string \<Rightarrow> client_outcome" where
  "unauthorized_once n model = (if n = 0 then Rejects ''401 API key not valid'' else Responds sample_text)"

definition model_missing :: "nat \<Rightarrow> string \<Rightarrow> client_outcome" where
  "model_missing n model = Rejects ''404 model is not found''"

definition unavailable_and_missing :: "nat \<Rightarrow> string \<Rightarrow> client_outcome" where
  "unavailable_and_missing n model = Rejects ''503 Service Unavailable: model is not found''"

definition rate_limited_twice :: "nat \<Rightarrow> string \<Rightarrow> client_outcome" where
  "rate_limited_twice n model = (if n < 2 then Rejects ''429 rate limit exceeded'' else Responds sample_text)"

definition always_times_out :: "nat \<Rightarrow> string \<Rightarrow> client_outcome" where
  "always_times_out n model = TimesOut"

definition sample_itinerary :: "env \<Rightarrow> nat \<Rightarrow> Itinerary" where
  \<comment> \<open>what the \<open>n\<close>-th call makes of \<open>sample_response 1 ''14:00''\<close> for one day in Paris\<close>
  "sample_itinerary e n =
     \<lparr>itinerary_id = generateId e n 0,
      destination = ''Paris'',
      duration = 1,
      dailySchedules =
        [\<lparr>day = 1,
          activities =
            [\<lparr>time = ''09:00'', name = ''y'', location = ''b'', description = ''c''\<rparr>,
             \<lparr>time = ''12:00'', name = ''z'', location = ''b'', description = ''c''\<rparr>,
             \<lparr>time = ''14:00'', name = ''x'', location = ''b'', description = ''c''\<rparr>]\<rparr>],
      recommendations =
        [\<lparr>category = Place, rec_name = ''p'', rec_description = ''q'', rec_location = None,
          rec_id = generateId e n 1\<rparr>],
      generatedAt = now e n\<rparr>"

definition last_call_failed :: "env \<Rightarrow> string \<Rightarrow> int \<Rightarrow> run_state \<Rightarrow> bool" where
  \<comment> \<open>the state counts the calls of its run, and \<open>lastError\<close> is what the last of them
      failed with\<close>
  "last_call_failed e dest dur st =
     (calls st = length (invocations (trace st)) \<and>
      (if calls st = 0 then lastError st = None
       else \<exists>err. lastError st = Some err \<and>
              generateWithTimeout e (calls st - 1) (last (invocations (trace st))) dest dur = Inl err))"

definition paris :: "int \<Rightarrow> TripInput" where
  "paris n = \<lparr>input_destination = ''Paris'', input_duration = n\<rparr>"


section \<open>Properties\<close>

subsection \<open>Numbers in messages\<close>

text \<open>Below \<open>2 ^ 53\<close> a number is printed with the digits of its own.\<close>

lemma bit_length_le: "bit_length y \<le> k \<longleftrightarrow> y < 2 ^ k"
proof (induction y arbitrary: k rule: bit_length.induct)
  case (1 n)
  show ?case
  proof (cases "n = 0")
    case True
    then show ?thesis by (simp add: bit_length.simps)
  next
    case False
    show ?thesis
    proof (cases k)
      case 0
      with False show ?thesis by (simp add: bit_length.simps [of n])
    next
      case (Suc j)
      from 1 [OF False, of j] have "bit_length (n div 2) \<le> j \<longleftrightarrow> n div 2 < 2 ^ j" .
      moreover have "n div 2 < 2 ^ j \<longleftrightarrow> n < 2 ^ Suc j"
        by auto
      ultimately show ?thesis
        using False Suc by (simp add: bit_length.simps [of n])
    qed
  qed
qed

lemma nearest_double_small: "y < 2 ^ 53 \<Longrightarrow> nearest_double y = y"
proof -
  assume "y < 2 ^ 53"
  then have "bit_length y \<le> 53" by (simp add: bit_length_le)
  then have "bit_length y - 53 = 0" by simp
  then show ?thesis by (simp add: nearest_double_def)
qed

lemma nearest_double_large:
  assumes "2 ^ 53 \<le> y"
  shows "2 ^ 53 \<le> nearest_double y"
proof -
  define b where "b = bit_length y"
  have "\<not> y < 2 ^ 53" using assms by simp
  then have b53: "53 < b" unfolding b_def using bit_length_le [of y 53] by simp
  have "\<not> bit_length y \<le> b - 1" using b53 b_def by simp
  then have low: "2 ^ (b - 1) \<le> y" using bit_length_le [of y "b - 1"] by simp
  define u :: nat where "u = 2 ^ (b - 53)"
  have u: "0 < u" by (simp add: u_def)
  have "b - 1 = 52 + (b - 53)"
    using b53 by simp
  then have "(2::nat) ^ (b - 1) = 2 ^ 52 * 2 ^ (b - 53)"
    by (simp only: power_add)
  then have "2 ^ 52 * u \<le> y" using low by (simp add: u_def)
  then have q: "2 ^ 52 \<le> y div u"
    using u by (simp add: less_eq_div_iff_mult_less_eq)
  have "(2::nat) ^ 53 \<le> 2 ^ 52 * u"
  proof -
    have "(2::nat) ^ 1 \<le> 2 ^ (b - 53)" using b53 by (intro power_increasing) simp_all
    then show ?thesis by (simp add: u_def)
  qed
  also have "\<dots> \<le> y div u * u" using q by simp
  finally have a: "2 ^ 53 \<le> y div u * u" .
  then have "2 ^ 53 \<le> (y div u + 1) * u" by simp
  with a show ?thesis
    by (simp add: nearest_double_def Let_def b_def [symmetric] u_def [symmetric])
qed

lemma shortest_decimal_small: "x < 2 ^ 53 \<Longrightarrow> shortest_decimal x e = x"
proof (induction e)
  case 0
  show ?case by simp
next
  case (Suc e)
  define p :: nat where "p = 10 ^ Suc e"
  define lo where "lo = x div p * p"
  have p: "0 < p" by (simp add: p_def)
  have le: "lo \<le> x" by (simp add: lo_def)
  with Suc.prems have nlo: "nearest_double lo = lo" by (simp add: nearest_double_small)
  have gt: "x < lo + p"
    using p unfolding lo_def by (metis add.commute dividend_less_div_times)
  have nhi: "nearest_double (lo + p) \<noteq> x"
  proof (cases "lo + p < 2 ^ 53")
    case True
    with gt show ?thesis by (simp add: nearest_double_small)
  next
    case False
    then have "2 ^ 53 \<le> nearest_double (lo + p)" by (intro nearest_double_large) simp
    with Suc.prems show ?thesis by simp
  qed
  show ?case
  proof (cases "lo = x")
    case True
    with nlo nhi show ?thesis
      by (simp add: Let_def p_def [symmetric] lo_def [symmetric] del: power_Suc)
  next
    case False
    with nlo nhi Suc show ?thesis
      by (simp add: Let_def p_def [symmetric] lo_def [symmetric] del: power_Suc)
  qed
qed

lemma length_show_nat: "0 < k \<Longrightarrow> y < 10 ^ k \<Longrightarrow> length (show_nat y) \<le> k"
proof (induction y arbitrary: k rule: show_nat.induct)
  case (1 n)
  show ?case
  proof (cases "n < 10")
    case True
    with 1(2) show ?thesis by (simp add: show_nat.simps [of n])
  next
    case False
    with 1(2,3) obtain j where k: "k = Suc j" "0 < j"
      by (cases k; cases "k - 1") auto
    from 1(3) k have "n div 10 < 10 ^ j" by auto
    from 1(1) [OF False k(2) this] False k show ?thesis
      by (simp add: show_nat.simps [of n])
  qed
qed

lemma Number_toString_small:
  assumes "y < 2 ^ 53"
  shows "Number_toString y = show_nat y"
proof -
  have "(2::nat) ^ 53 < 10 ^ 21" by simp
  with assms have "y < 10 ^ 21" by simp
  then have "length (show_nat y) \<le> 21" by (intro length_show_nat) simp_all
  moreover have "\<not> (2::nat) ^ 1024 \<le> y"
  proof -
    have "(2::nat) ^ 53 \<le> 2 ^ 1024" by (intro power_increasing) simp_all
    with assms show ?thesis by simp
  qed
  ultimately show ?thesis
    using assms by (simp add: Number_toString_def Let_def nearest_double_small shortest_decimal_small)
qed

lemma show_int_small: "0 \<le> i \<Longrightarrow> i < 2 ^ 53 \<Longrightarrow> show_int i = show_nat (nat i)"
proof -
  assume a: "0 \<le> i" "i < 2 ^ 53"
  then have "nat i < 2 ^ 53" by (simp add: nat_less_iff)
  with a(1) show ?thesis by (simp add: show_int_def Number_toString_small)
qed


subsection \<open>The inner loop, one step at a time\<close>

lemma attempts_success:
  assumes "attempt \<le> maxRetries cfg"
    and "generateWithTimeout e (calls st) model dest dur = Inr result"
  shows "attempts cfg e dest dur model attempt st =
           (Some result, st\<lparr>calls := Suc (calls st), trace := trace st @ [Invoke model]\<rparr>)"
  using assms by (subst attempts.simps) simp

lemma attempts_not_found:
  assumes "attempt \<le> maxRetries cfg"
    and "generateWithTimeout e (calls st) model dest dur = Inl err"
    and "is_not_found err"
  shows "attempts cfg e dest dur model attempt st =
           (None, st\<lparr>lastError := Some err, calls := Suc (calls st),
                      trace := trace st @ [Invoke model]\<rparr>)"
  using assms by (subst attempts.simps) simp

lemma attempts_retry:
  assumes "attempt < maxRetries cfg"
    and "generateWithTimeout e (calls st) model dest dur = Inl err"
    and "\<not> is_not_found err" and "isRetryableError err"
  shows "attempts cfg e dest dur model attempt st =
           attempts cfg e dest dur model (attempt + 1)
             (st\<lparr>lastError := Some err, calls := Suc (calls st),
                 trace := trace st @ [Invoke model, Sleep (retryDelay cfg * 2 ^ (attempt - 1))]\<rparr>)"
  using assms by (subst attempts.simps) simp

lemma attempts_give_up:
  assumes "attempt \<le> maxRetries cfg"
    and "generateWithTimeout e (calls st) model dest dur = Inl err"
    and "\<not> is_not_found err" and "\<not> isRetryableError err \<or> attempt = maxRetries cfg"
  shows "attempts cfg e dest dur model attempt st =
           (None, st\<lparr>lastError := Some err, calls := Suc (calls st),
                      trace := trace st @ [Invoke model]\<rparr>)"
  using assms by (subst attempts.simps) auto

lemma attempts_over:
  "maxRetries cfg < attempt \<Longrightarrow> attempts cfg e dest dur model attempt st = (None, st)"
  by (subst attempts.simps) simp

lemma generateWithTimeout_rejects:
  "client e n model = Rejects m \<Longrightarrow> generateWithTimeout e n model dest dur = Inl (ClientError m)"
  by (simp add: generateWithTimeout_def callGeminiAPI_def)

lemma generateWithTimeout_times_out:
  "client e n model = TimesOut \<Longrightarrow> generateWithTimeout e n model dest dur = Inl RequestTimeout"
  by (simp add: generateWithTimeout_def callGeminiAPI_def)

lemma model_missing_is_not_found: "includes_str ''404 model is not found'' ''404''"
  by (simp add: includes_str_def sublist_code)

lemma maxRetries_ItineraryGenerator [simp]: "maxRetries ItineraryGenerator = 3"
  and retryDelay_ItineraryGenerator [simp]: "retryDelay ItineraryGenerator = 1000"
  by (simp_all add: ItineraryGenerator_def)


subsection \<open>Input validation\<close>

lemma dropWhile_all_iff: "(\<forall>x \<in> set (dropWhile P xs). P x) \<longleftrightarrow> (\<forall>x \<in> set xs. P x)"
proof
  assume a: "\<forall>x \<in> set (dropWhile P xs). P x"
  have "dropWhile P xs = []"
  proof (rule ccontr)
    assume n: "dropWhile P xs \<noteq> []"
    then have "\<not> P (hd (dropWhile P xs))" by (rule hd_dropWhile)
    moreover from n have "hd (dropWhile P xs) \<in> set (dropWhile P xs)" by simp
    ultimately show False using a by blast
  qed
  then show "\<forall>x \<in> set xs. P x" by (simp add: dropWhile_eq_Nil_conv)
next
  assume "\<forall>x \<in> set xs. P x"
  then show "\<forall>x \<in> set (dropWhile P xs). P x"
    using set_dropWhileD by fastforce
qed

lemma trim_empty_iff: "trim s = [] \<longleftrightarrow> (\<forall>c \<in> set s. is_space c)"
  by (simp add: trim_def dropWhile_eq_Nil_conv dropWhile_all_iff)

lemma generate_with_invalid:
  assumes "(\<forall>c \<in> set (input_destination input). is_space c) \<or> input_duration input < 1"
  shows "fst (generate_with cfg models e input) \<in> {Inl DestinationRequired, Inl DurationTooSmall}
         \<and> snd (generate_with cfg models e input) = []"
  using assms by (auto simp: generate_with_def trim_empty_iff)


text \<open>
  C10. A destination that is empty or all white space, and a duration below 1, make
  \<open>generateItinerary\<close> fail with a validation error before any model is called (the
  run is empty); a destination of white space only is rejected exactly as the empty
  string is.
\<close>

theorem invalid_input_rejected_before_any_call:
  assumes "(\<forall>c \<in> set (input_destination input). is_space c) \<or> input_duration input < 1"
  shows "(fst (generateItinerary e input) = Inl DestinationRequired
            \<or> fst (generateItinerary e input) = Inl DurationTooSmall)
         \<and> snd (generateItinerary e input) = []
         \<and> ((\<forall>c \<in> set (input_destination input). is_space c) \<longrightarrow>
              generateItinerary e input = (Inl DestinationRequired, [])
              \<and> generateItinerary e input = generateItinerary e (input\<lparr>input_destination := []\<rparr>))"
proof -
  have "fst (generateItinerary e input) \<in> {Inl DestinationRequired, Inl DurationTooSmall}
        \<and> snd (generateItinerary e input) = []"
    unfolding generateItinerary_def using assms by (rule generate_with_invalid)
  moreover have "generateItinerary e input = (Inl DestinationRequired, [])
      \<and> generateItinerary e input = generateItinerary e (input\<lparr>input_destination := []\<rparr>)"
    if "\<forall>c \<in> set (input_destination input). is_space c"
    using that by (simp add: generateItinerary_def generate_with_def trim_empty_iff)
  ultimately show ?thesis by blast
qed

theorem invalid_input_rejected_before_any_call_witness:
  "list_all is_space ''   ''
   \<and> generateItinerary (sample_env unauthorized) \<lparr>input_destination = ''   '', input_duration = 3\<rparr>
       = (Inl DestinationRequired, [])
   \<and> generateItinerary (sample_env unauthorized) \<lparr>input_destination = ''   '', input_duration = 3\<rparr>
       = generateItinerary (sample_env unauthorized) \<lparr>input_destination = [], input_duration = 3\<rparr>
   \<and> input_duration (paris 0) < 1
   \<and> fst (generateItinerary (sample_env unauthorized) (paris 0)) = Inl DurationTooSmall
   \<and> snd (generateItinerary (sample_env unauthorized) (paris 0)) = []"
proof -
  let ?i = "\<lparr>input_destination = ''   '', input_duration = 3\<rparr>"
  have sp: "\<forall>c \<in> set (input_destination ?i). is_space c"
    by (simp add: is_space_def)
  have du: "input_duration (paris 0) < 1"
    by (simp add: paris_def)
  have a: "generateItinerary (sample_env unauthorized) ?i = (Inl DestinationRequired, [])
      \<and> generateItinerary (sample_env unauthorized) ?i
          = generateItinerary (sample_env unauthorized) (?i\<lparr>input_destination := []\<rparr>)"
    using invalid_input_rejected_before_any_call [of ?i "sample_env unauthorized"] sp by blast
  have b: "(fst (generateItinerary (sample_env unauthorized) (paris 0)) = Inl DestinationRequired
            \<or> fst (generateItinerary (sample_env unauthorized) (paris 0)) = Inl DurationTooSmall)
         \<and> snd (generateItinerary (sample_env unauthorized) (paris 0)) = []"
    using invalid_input_rejected_before_any_call [of "paris 0" "sample_env unauthorized"] du by blast
  have "trim ''Paris'' \<noteq> []"
    by (simp add: trim_def is_space_def)
  then have c: "fst (generateItinerary (sample_env unauthorized) (paris 0)) \<noteq> Inl DestinationRequired"
    by (simp add: generateItinerary_def generate_with_def paris_def)
  have upd: "?i\<lparr>input_destination := []\<rparr> = \<lparr>input_destination = [], input_duration = 3\<rparr>"
    by simp
  have a': "generateItinerary (sample_env unauthorized) ?i
          = generateItinerary (sample_env unauthorized) \<lparr>input_destination = [], input_duration = 3\<rparr>"
    using a unfolding upd by blast
  have ws: "list_all is_space ''   ''"
    by (simp add: is_space_def)
  show ?thesis using a a' b c ws du by blast
qed

subsection \<open>Messages of the sample clients\<close>

lemma unauthorized_message:
  "\<not> is_not_found (ClientError ''401 API key not valid'')"
  "\<not> isRetryableError (ClientError ''401 API key not valid'')"
  "handleError (ClientError ''401 API key not valid'') = Auth"
  "includes_str ''401 API key not valid'' ''401''"
  by (simp_all add: is_not_found_def isRetryableError_def handleError_def includes_str_def
        sublist_code toLowerCase_def lower_char_def char_of_def bit_0)

lemma unavailable_message:
  "is_not_found (ClientError ''503 Service Unavailable: model is not found'')"
  "isRetryableError (ClientError ''503 Service Unavailable: model is not found'')"
  "handleError (ClientError ''503 Service Unavailable: model is not found'') = ModelUnavailable"
  by (simp_all add: is_not_found_def isRetryableError_def handleError_def includes_str_def
        sublist_code toLowerCase_def lower_char_def char_of_def bit_0)

lemma rate_limit_message:
  "\<not> is_not_found (ClientError ''429 rate limit exceeded'')"
  "isRetryableError (ClientError ''429 rate limit exceeded'')"
  by (simp_all add: is_not_found_def isRetryableError_def includes_str_def
        sublist_code toLowerCase_def lower_char_def char_of_def bit_0)

lemma timeout_message:
  "\<not> is_not_found RequestTimeout"
  "includes_str (message RequestTimeout) ''timeout''"
  by (simp_all add: is_not_found_def includes_str_def sublist_code)

lemma lower_timeout: "map lower_char ''timeout'' = ''timeout''"
  by (simp add: lower_char_def)

lemma timeout_is_retryable:
  assumes "includes_str (message err) ''timeout''"
  shows "isRetryableError err"
proof -
  from assms have "sublist (map lower_char ''timeout'') (map lower_char (message err))"
    unfolding includes_str_def by (rule map_mono_sublist)
  then have "includes_str (toLowerCase (message err)) ''timeout''"
    by (simp only: lower_timeout includes_str_def toLowerCase_def)
  then show ?thesis
    by (simp add: isRetryableError_def)
qed

lemma timeout_is_Timeout:
  assumes "includes_str (message err) ''timeout''"
  shows "handleError err = Timeout"
proof -
  from assms have "message err \<noteq> []"
    by (auto simp: includes_str_def)
  with assms show ?thesis
    by (simp add: handleError_def)
qed

subsection \<open>The sample response\<close>

lemma sample_response_accepted:
  "ItineraryResponseSchema (sample_response 1 ''14:00'') =
     Some \<lparr>resp_dailySchedules =
             [\<lparr>day = 1,
               activities =
                 [\<lparr>time = ''14:00'', name = ''x'', location = ''b'', description = ''c''\<rparr>,
                  \<lparr>time = ''09:00'', name = ''y'', location = ''b'', description = ''c''\<rparr>,
                  \<lparr>time = ''12:00'', name = ''z'', location = ''b'', description = ''c''\<rparr>]\<rparr>],
           resp_recommendations =
             [\<lparr>category = Place, rec_name = ''p'', rec_description = ''q'', rec_location = None\<rparr>]\<rparr>"
  by (simp add: sample_response_def sample_day_def sample_activity_def ItineraryResponseSchema_def
        DailyScheduleSchema_def ActivitySchema_def RecommendationSchema_def required_def optional_def
        z_array_def z_min_def time_regex_def is_digit_def)

lemma build_sample:
  "build_itinerary e n ''Paris'' 1 (Inr (sample_response 1 ''14:00'')) = Inr (sample_itinerary e n)"
  by (simp add: build_itinerary_def sample_response_accepted sort_activities_def with_id_def
        RecommendationData.extend_def sample_itinerary_def enumerate_eq_zip)

lemma trim_sample_text: "trim sample_text = sample_text"
  by (simp add: trim_def sample_text_def is_space_def)

lemma strip_fences_sample_text: "strip_fences sample_text = sample_text"
  by (simp add: strip_fences_def startsWith_def sample_text_def)

lemma parse_sample_text:
  "parseAIResponse sample_JSON_parse sample_text = Inr (sample_response 1 ''14:00'')"
  by (simp add: parseAIResponse_def trim_sample_text strip_fences_sample_text sample_JSON_parse_def)

lemma sample_text_not_empty: "sample_text \<noteq> []"
  by (simp add: sample_text_def)

lemma generate_sample:
  assumes "c n model = Responds sample_text"
  shows "generateWithTimeout (sample_env c) n model ''Paris'' 1 = Inr (sample_itinerary (sample_env c) n)"
  using assms
  by (simp add: generateWithTimeout_def callGeminiAPI_def sample_env_def sample_text_not_empty
        parse_sample_text build_sample)

subsection \<open>What a run calls\<close>

lemma attempts_trace:
  assumes "attempt \<le> maxRetries cfg"
  shows "\<exists>evs. trace (snd (attempts cfg e dest dur model attempt st)) = trace st @ Invoke model # evs"
  using assms
proof (induction "maxRetries cfg - attempt" arbitrary: attempt st)
  case 0
  then have eq: "attempt = maxRetries cfg" by simp
  show ?case
  proof (cases "generateWithTimeout e (calls st) model dest dur")
    case (Inr result)
    with 0 show ?thesis by (simp add: attempts_success)
  next
    case (Inl err)
    show ?thesis
    proof (cases "is_not_found err")
      case True
      with Inl 0 show ?thesis by (simp add: attempts_not_found)
    next
      case False
      with Inl eq show ?thesis by (simp add: attempts_give_up)
    qed
  qed
next
  case (Suc k)
  then have lt: "attempt < maxRetries cfg" by simp
  show ?case
  proof (cases "generateWithTimeout e (calls st) model dest dur")
    case (Inr result)
    with Suc show ?thesis by (simp add: attempts_success)
  next
    case (Inl err)
    show ?thesis
    proof (cases "is_not_found err")
      case True
      with Inl Suc show ?thesis by (simp add: attempts_not_found)
    next
      case nf: False
      show ?thesis
      proof (cases "isRetryableError err")
        case False
        with Inl nf Suc show ?thesis by (simp add: attempts_give_up)
      next
        case True
        let ?st = "st\<lparr>lastError := Some err, calls := Suc (calls st),
                 trace := trace st @ [Invoke model, Sleep (retryDelay cfg * 2 ^ (attempt - 1))]\<rparr>"
        have step: "attempts cfg e dest dur model attempt st = attempts cfg e dest dur model (attempt + 1) ?st"
          using lt Inl nf True by (rule attempts_retry)
        from Suc(2) have "k = maxRetries cfg - (attempt + 1)" by simp
        moreover from lt have "attempt + 1 \<le> maxRetries cfg" by simp
        ultimately obtain evs where
          "trace (snd (attempts cfg e dest dur model (attempt + 1) ?st)) = trace ?st @ Invoke model # evs"
          using Suc(1) by blast
        with step show ?thesis by simp
      qed
    qed
  qed
qed

lemma attempts_trace_extends:
  "\<exists>evs. trace (snd (attempts cfg e dest dur model attempt st)) = trace st @ evs"
proof (cases "attempt \<le> maxRetries cfg")
  case True
  then show ?thesis using attempts_trace [of attempt cfg e dest dur model st] by blast
next
  case False
  then show ?thesis by (simp add: attempts_over)
qed

lemma try_models_trace_extends:
  "\<exists>evs. trace (snd (try_models cfg e dest dur models st)) = trace st @ evs"
proof (induction models arbitrary: st)
  case Nil
  then show ?case by simp
next
  case (Cons model models)
  obtain r st' where a: "attempts cfg e dest dur model 1 st = (r, st')"
    by (cases "attempts cfg e dest dur model 1 st")
  obtain evs where e1: "trace st' = trace st @ evs"
    using attempts_trace_extends [of cfg e dest dur model 1 st] a by auto
  show ?case
  proof (cases r)
    case (Some result)
    with a e1 show ?thesis by simp
  next
    case None
    obtain evs' where "trace (snd (try_models cfg e dest dur models st')) = trace st' @ evs'"
      using Cons.IH by blast
    with a None e1 show ?thesis by simp
  qed
qed

lemma try_models_first_call:
  assumes "1 \<le> maxRetries cfg"
  shows "\<exists>evs. trace (snd (try_models cfg e dest dur (model # models) st)) = trace st @ Invoke model # evs"
proof -
  obtain r st' where a: "attempts cfg e dest dur model 1 st = (r, st')"
    by (cases "attempts cfg e dest dur model 1 st")
  obtain evs where e1: "trace st' = trace st @ Invoke model # evs"
    using attempts_trace [OF assms, of e dest dur model st] a by auto
  show ?thesis
  proof (cases r)
    case (Some result)
    with a e1 show ?thesis by simp
  next
    case None
    obtain evs' where "trace (snd (try_models cfg e dest dur models st')) = trace st' @ evs'"
      using try_models_trace_extends by blast
    with a None e1 show ?thesis by simp
  qed
qed

lemma generate_with_valid:
  assumes "trim (input_destination input) \<noteq> []" and "1 \<le> input_duration input"
  shows "generate_with cfg models e input =
     (case try_models cfg e (input_destination input) (input_duration input) models initial_state of
           (Some result, st) \<Rightarrow> (Inr result, trace st)
         | (None, st) \<Rightarrow>
             (Inl (Classified (handleError
                     (case lastError st of None \<Rightarrow> AllModelsFailed | Some err \<Rightarrow> err))),
              trace st))"
  using assms by (simp add: generate_with_def)

subsection \<open>A model that is not found\<close>

text \<open>
  C2. When an attempt on a model fails with a message that contains \<open>not found\<close> or
  \<open>404\<close> (the message is searched as it is), the inner loop is left at once: the run
  records that one call and no delay, and no further attempt on that model; when it was
  the first attempt, the cascade goes on with the next model of the list from there, and
  the call of the next model is what the run records next.
\<close>

theorem not_found_skips_to_next_model:
  assumes "1 \<le> attempt" and "attempt \<le> maxRetries cfg"
    and "generateWithTimeout e (calls st) model dest dur = Inl err"
    and "includes_str (message err) ''not found'' \<or> includes_str (message err) ''404''"
  shows "attempts cfg e dest dur model attempt st =
           (None, st\<lparr>lastError := Some err, calls := Suc (calls st),
                      trace := trace st @ [Invoke model]\<rparr>)
         \<and> (attempt = 1 \<longrightarrow>
              try_models cfg e dest dur (model # models) st =
                try_models cfg e dest dur models
                  (st\<lparr>lastError := Some err, calls := Suc (calls st),
                      trace := trace st @ [Invoke model]\<rparr>))
         \<and> (attempt = 1 \<longrightarrow>
              (\<exists>evs. trace (snd (try_models cfg e dest dur (model # next_model # rest) st)) =
                       trace st @ Invoke model # Invoke next_model # evs))"
proof -
  let ?st = "st\<lparr>lastError := Some err, calls := Suc (calls st),
                 trace := trace st @ [Invoke model]\<rparr>"
  from assms(4) have nf: "is_not_found err"
    by (simp add: is_not_found_def)
  have step: "attempts cfg e dest dur model attempt st = (None, ?st)"
    using assms(2,3) nf by (rule attempts_not_found)
  have next_one: "try_models cfg e dest dur (model # ms) st = try_models cfg e dest dur ms ?st"
    if "attempt = 1" for ms
    using step that by simp
  have "\<exists>evs. trace (snd (try_models cfg e dest dur (model # next_model # rest) st)) =
               trace st @ Invoke model # Invoke next_model # evs" if one: "attempt = 1"
  proof -
    from one assms(2) have "1 \<le> maxRetries cfg"
      by simp
    from try_models_first_call [OF this, of e dest dur next_model rest ?st]
    obtain evs where "trace (snd (try_models cfg e dest dur (next_model # rest) ?st)) =
        trace ?st @ Invoke next_model # evs"
      by blast
    with next_one [OF one, of "next_model # rest"]
    have "trace (snd (try_models cfg e dest dur (model # next_model # rest) st)) =
            trace st @ Invoke model # Invoke next_model # evs"
      by simp
    then show ?thesis ..
  qed
  with step next_one show ?thesis by blast
qed

theorem not_found_skips_to_next_model_witness:
  "generateWithTimeout (sample_env model_missing) 0 ''gemini-2.5-flash'' ''Paris'' 2
     = Inl (ClientError ''404 model is not found'')
   \<and> includes_str (message (ClientError ''404 model is not found'')) ''404''
   \<and> attempts ItineraryGenerator (sample_env model_missing) ''Paris'' 2 ''gemini-2.5-flash'' 1 initial_state
     = (None, \<lparr>lastError = Some (ClientError ''404 model is not found''), calls = 1,
               trace = [Invoke ''gemini-2.5-flash'']\<rparr>)
   \<and> try_models ItineraryGenerator (sample_env model_missing) ''Paris'' 2
        [''gemini-2.5-flash'', ''gemini-2.5-pro''] initial_state
     = try_models ItineraryGenerator (sample_env model_missing) ''Paris'' 2 [''gemini-2.5-pro'']
         \<lparr>lastError = Some (ClientError ''404 model is not found''), calls = 1,
          trace = [Invoke ''gemini-2.5-flash'']\<rparr>
   \<and> (\<exists>evs. trace (snd (try_models ItineraryGenerator (sample_env model_missing) ''Paris'' 2
                  [''gemini-2.5-flash'', ''gemini-2.5-pro''] initial_state)) =
             Invoke ''gemini-2.5-flash'' # Invoke ''gemini-2.5-pro'' # evs)
   \<and> try_models ItineraryGenerator (sample_env model_missing) ''Paris'' 2
        [''gemini-2.5-flash'', ''gemini-2.5-pro''] initial_state
     = (None, \<lparr>lastError = Some (ClientError ''404 model is not found''), calls = 2,
               trace = [Invoke ''gemini-2.5-flash'', Invoke ''gemini-2.5-pro'']\<rparr>)"
proof -
  let ?e = "sample_env model_missing" and ?err = "ClientError ''404 model is not found''"
  let ?st1 = "\<lparr>lastError = Some ?err, calls = 1, trace = [Invoke ''gemini-2.5-flash'']\<rparr>"
  let ?st2 = "\<lparr>lastError = Some ?err, calls = 2,
               trace = [Invoke ''gemini-2.5-flash'', Invoke ''gemini-2.5-pro'']\<rparr>"
  have g: "generateWithTimeout ?e (calls st) model ''Paris'' 2 = Inl ?err" for st model
    by (rule generateWithTimeout_rejects) (simp add: sample_env_def model_missing_def)
  have i: "includes_str (message ?err) ''not found'' \<or> includes_str (message ?err) ''404''"
    using model_missing_is_not_found by simp
  have a: "(1::nat) \<le> maxRetries ItineraryGenerator" by simp
  have st1: "initial_state\<lparr>lastError := Some ?err, calls := Suc (calls initial_state),
               trace := trace initial_state @ [Invoke ''gemini-2.5-flash'']\<rparr> = ?st1"
    and st2: "?st1\<lparr>lastError := Some ?err, calls := Suc (calls ?st1),
               trace := trace ?st1 @ [Invoke ''gemini-2.5-pro'']\<rparr> = ?st2"
    and tr: "trace initial_state = []"
    by (simp_all add: initial_state_def)
  note t1 = not_found_skips_to_next_model [OF order_refl a g i,
              where st = initial_state and model = "''gemini-2.5-flash''", unfolded st1]
  note t2 = not_found_skips_to_next_model [OF order_refl a g i,
              where st = ?st1 and model = "''gemini-2.5-pro''", unfolded st2]
  from t1 have p1: "attempts ItineraryGenerator ?e ''Paris'' 2 ''gemini-2.5-flash'' 1 initial_state
     = (None, ?st1)"
    by (rule conjunct1)
  from t1 [where models = "[''gemini-2.5-pro'']"]
  have p2: "try_models ItineraryGenerator ?e ''Paris'' 2 [''gemini-2.5-flash'', ''gemini-2.5-pro'']
              initial_state
            = try_models ItineraryGenerator ?e ''Paris'' 2 [''gemini-2.5-pro''] ?st1"
    by blast
  from t1 [where next_model = "''gemini-2.5-pro''" and rest = "[]"]
  have "\<exists>evs. trace (snd (try_models ItineraryGenerator ?e ''Paris'' 2
                  [''gemini-2.5-flash'', ''gemini-2.5-pro''] initial_state)) =
             trace initial_state @ Invoke ''gemini-2.5-flash'' # Invoke ''gemini-2.5-pro'' # evs"
    by blast
  then have p3: "\<exists>evs. trace (snd (try_models ItineraryGenerator ?e ''Paris'' 2
                  [''gemini-2.5-flash'', ''gemini-2.5-pro''] initial_state)) =
             Invoke ''gemini-2.5-flash'' # Invoke ''gemini-2.5-pro'' # evs"
    by (simp only: tr append_Nil)
  from t2 [where models = "[]"]
  have "try_models ItineraryGenerator ?e ''Paris'' 2 [''gemini-2.5-pro''] ?st1
          = try_models ItineraryGenerator ?e ''Paris'' 2 [] ?st2"
    by blast
  with p2 have p4: "try_models ItineraryGenerator ?e ''Paris'' 2
        [''gemini-2.5-flash'', ''gemini-2.5-pro''] initial_state = (None, ?st2)"
    by simp
  have g0: "generateWithTimeout ?e 0 ''gemini-2.5-flash'' ''Paris'' 2 = Inl ?err"
    using g [of initial_state] by (simp add: initial_state_def)
  have i': "includes_str (message ?err) ''404''"
    using model_missing_is_not_found by simp
  from g0 i' p1 p2 p3 p4 show ?thesis by (intro conjI)
qed

subsection \<open>A failed authentication\<close>

lemma trim_paris: "trim ''Paris'' = ''Paris''"
  by (simp add: trim_def is_space_def)

lemma paris_fields: "input_destination (paris n) = ''Paris''" "input_duration (paris n) = n"
  by (simp_all add: paris_def)

lemma try_models_None:
  "attempts cfg e dest dur model 1 st = (None, st') \<Longrightarrow>
   try_models cfg e dest dur (model # models) st = try_models cfg e dest dur models st'"
  by simp

lemma try_models_Some:
  "attempts cfg e dest dur model 1 st = (Some result, st') \<Longrightarrow>
   try_models cfg e dest dur (model # models) st = (Some result, st')"
  by simp

lemma generate_with_paris:
  assumes "1 \<le> n" and "try_models cfg e ''Paris'' n models initial_state = (Some result, st)"
  shows "generate_with cfg models e (paris n) = (Inr result, trace st)"
  using assms by (simp add: generate_with_def paris_def trim_paris)

lemma unauthorized_once_run:
  "generate_with ItineraryGenerator FALLBACK_MODELS (sample_env unauthorized_once) (paris 1) =
     (Inr (sample_itinerary (sample_env unauthorized_once) 1),
      [Invoke ''gemini-2.5-flash'', Invoke ''gemini-2.5-pro''])"
proof -
  let ?e = "sample_env unauthorized_once"
  let ?st = "\<lparr>lastError = Some (ClientError ''401 API key not valid''), calls = 1,
              trace = [Invoke ''gemini-2.5-flash'']\<rparr>"
  have g0: "generateWithTimeout ?e (calls initial_state) ''gemini-2.5-flash'' ''Paris'' 1
              = Inl (ClientError ''401 API key not valid'')"
    by (rule generateWithTimeout_rejects) (simp add: sample_env_def unauthorized_once_def initial_state_def)
  have a0: "attempts ItineraryGenerator ?e ''Paris'' 1 ''gemini-2.5-flash'' 1 initial_state = (None, ?st)"
    using attempts_give_up [OF _ g0 unauthorized_message(1), of 1 ItineraryGenerator]
      unauthorized_message(2)
    by (simp add: initial_state_def)
  have g1: "generateWithTimeout ?e (calls ?st) ''gemini-2.5-pro'' ''Paris'' 1 = Inr (sample_itinerary ?e 1)"
    using generate_sample [of unauthorized_once 1 "''gemini-2.5-pro''"]
    by (simp add: unauthorized_once_def)
  have a1: "attempts ItineraryGenerator ?e ''Paris'' 1 ''gemini-2.5-pro'' 1 ?st =
              (Some (sample_itinerary ?e 1),
               \<lparr>lastError = Some (ClientError ''401 API key not valid''), calls = 2,
                trace = [Invoke ''gemini-2.5-flash'', Invoke ''gemini-2.5-pro'']\<rparr>)"
    using attempts_success [OF _ g1, of 1 ItineraryGenerator] by simp
  have "try_models ItineraryGenerator ?e ''Paris'' 1 FALLBACK_MODELS initial_state =
          (Some (sample_itinerary ?e 1),
               \<lparr>lastError = Some (ClientError ''401 API key not valid''), calls = 2,
                trace = [Invoke ''gemini-2.5-flash'', Invoke ''gemini-2.5-pro'']\<rparr>)"
    unfolding FALLBACK_MODELS_def
    by (simp only: try_models_None [OF a0] try_models_Some [OF a1])
  then show ?thesis
    by (simp add: generate_with_paris)
qed




subsection \<open>Backoff\<close>

lemma attempts_retry_to:
  assumes "attempt < maxRetries cfg"
    and "generateWithTimeout e (calls st) model dest dur = Inl err"
    and "\<not> is_not_found err" and "isRetryableError err"
    and "attempt' = attempt + 1"
    and "st' = st\<lparr>lastError := Some err, calls := Suc (calls st),
                 trace := trace st @ [Invoke model, Sleep (retryDelay cfg * 2 ^ (attempt - 1))]\<rparr>"
  shows "attempts cfg e dest dur model attempt st = attempts cfg e dest dur model attempt' st'"
  using assms by (simp add: attempts_retry)

lemma attempts_success_to:
  assumes "attempt \<le> maxRetries cfg"
    and "generateWithTimeout e (calls st) model dest dur = Inr result"
    and "st' = st\<lparr>calls := Suc (calls st), trace := trace st @ [Invoke model]\<rparr>"
  shows "attempts cfg e dest dur model attempt st = (Some result, st')"
  using assms by (simp add: attempts_success)

text \<open>
  C3, as stated, fails where C2 applies as well: \<open>503 Service Unavailable: model is not
  found\<close> carries the transient signals \<open>503\<close> and \<open>unavailable\<close>, and the first
  attempt is not the last one, yet no delay follows and the same model is not tried again.
\<close>

theorem retryable_signal_with_not_found_is_not_retried:
  "isRetryableError (ClientError ''503 Service Unavailable: model is not found'')
   \<and> generateWithTimeout (sample_env unavailable_and_missing) 0 ''gemini-2.5-flash'' ''Paris'' 1
       = Inl (ClientError ''503 Service Unavailable: model is not found'')
   \<and> (1::nat) < maxRetries ItineraryGenerator
   \<and> attempts ItineraryGenerator (sample_env unavailable_and_missing) ''Paris'' 1 ''gemini-2.5-flash'' 1
         initial_state
       = (None, \<lparr>lastError = Some (ClientError ''503 Service Unavailable: model is not found''),
                 calls = 1, trace = [Invoke ''gemini-2.5-flash'']\<rparr>)"
proof -
  have g: "generateWithTimeout (sample_env unavailable_and_missing) (calls initial_state)
             ''gemini-2.5-flash'' ''Paris'' 1
       = Inl (ClientError ''503 Service Unavailable: model is not found'')"
    by (rule generateWithTimeout_rejects) (simp add: sample_env_def unavailable_and_missing_def)
  have "attempts ItineraryGenerator (sample_env unavailable_and_missing) ''Paris'' 1 ''gemini-2.5-flash'' 1
         initial_state
       = (None, \<lparr>lastError = Some (ClientError ''503 Service Unavailable: model is not found''),
                 calls = 1, trace = [Invoke ''gemini-2.5-flash'']\<rparr>)"
    using attempts_not_found [OF _ g unavailable_message(1), of 1 ItineraryGenerator]
    by (simp add: initial_state_def)
  moreover have "generateWithTimeout (sample_env unavailable_and_missing) 0 ''gemini-2.5-flash'' ''Paris'' 1
       = Inl (ClientError ''503 Service Unavailable: model is not found'')"
    using g by (simp add: initial_state_def)
  moreover have "(1::nat) < maxRetries ItineraryGenerator" by simp
  ultimately show ?thesis using unavailable_message(2) by blast
qed

text \<open>
  C3, amended. When attempt \<open>k\<close> of a model, with \<open>k < maxRetries\<close>, fails with a message
  that carries a transient signal (in any case of letters) and neither \<open>not found\<close> nor
  \<open>404\<close>, the run records the call and a delay of \<open>retryDelay * 2 ^ (k - 1)\<close>
  milliseconds and goes on with attempt \<open>k + 1\<close> of the same model. With three attempts
  and a base delay of 1000, a first model that fails so twice and then answers gives that
  answer after the delays 1000 and 2000.
\<close>

theorem retryable_failure_backs_off_then_retries:
  "(1 \<le> attempt \<and> attempt < maxRetries cfg
      \<and> generateWithTimeout e (calls st) model dest dur = Inl err
      \<and> isRetryableError err \<and> \<not> is_not_found err \<longrightarrow>
    attempts cfg e dest dur model attempt st =
      attempts cfg e dest dur model (attempt + 1)
        (st\<lparr>lastError := Some err, calls := Suc (calls st),
            trace := trace st @ [Invoke model, Sleep (retryDelay cfg * 2 ^ (attempt - 1))]\<rparr>))
   \<and> (maxRetries cfg = 3 \<and> retryDelay cfg = 1000
        \<and> trim (input_destination input) \<noteq> [] \<and> 1 \<le> input_duration input
        \<and> generateWithTimeout e 0 model (input_destination input) (input_duration input) = Inl err1
        \<and> isRetryableError err1 \<and> \<not> is_not_found err1
        \<and> generateWithTimeout e 1 model (input_destination input) (input_duration input) = Inl err2
        \<and> isRetryableError err2 \<and> \<not> is_not_found err2
        \<and> generateWithTimeout e 2 model (input_destination input) (input_duration input) = Inr result
      \<longrightarrow>
      generate_with cfg (model # models) e input =
        (Inr result, [Invoke model, Sleep 1000, Invoke model, Sleep 2000, Invoke model]))"
proof (intro conjI impI)
  assume "1 \<le> attempt \<and> attempt < maxRetries cfg
      \<and> generateWithTimeout e (calls st) model dest dur = Inl err
      \<and> isRetryableError err \<and> \<not> is_not_found err"
  then show "attempts cfg e dest dur model attempt st =
      attempts cfg e dest dur model (attempt + 1)
        (st\<lparr>lastError := Some err, calls := Suc (calls st),
            trace := trace st @ [Invoke model, Sleep (retryDelay cfg * 2 ^ (attempt - 1))]\<rparr>)"
    by (simp add: attempts_retry)
next
  let ?d = "input_destination input" and ?n = "input_duration input"
  assume a: "maxRetries cfg = 3 \<and> retryDelay cfg = 1000
        \<and> trim ?d \<noteq> [] \<and> 1 \<le> ?n
        \<and> generateWithTimeout e 0 model ?d ?n = Inl err1
        \<and> isRetryableError err1 \<and> \<not> is_not_found err1
        \<and> generateWithTimeout e 1 model ?d ?n = Inl err2
        \<and> isRetryableError err2 \<and> \<not> is_not_found err2
        \<and> generateWithTimeout e 2 model ?d ?n = Inr result"
  let ?s1 = "\<lparr>lastError = Some err1, calls = 1, trace = [Invoke model, Sleep 1000]\<rparr>"
  let ?s2 = "\<lparr>lastError = Some err2, calls = 2,
              trace = [Invoke model, Sleep 1000, Invoke model, Sleep 2000]\<rparr>"
  let ?s3 = "\<lparr>lastError = Some err2, calls = 3,
              trace = [Invoke model, Sleep 1000, Invoke model, Sleep 2000, Invoke model]\<rparr>"
  from a have g2: "generateWithTimeout e (Suc 0) model ?d ?n = Inl err2"
    by simp
  have r1: "attempts cfg e ?d ?n model 1 initial_state = attempts cfg e ?d ?n model 2 ?s1"
    by (rule attempts_retry_to [where err = err1]) (simp_all add: a initial_state_def)
  have r2: "attempts cfg e ?d ?n model 2 ?s1 = attempts cfg e ?d ?n model 3 ?s2"
    by (rule attempts_retry_to [where err = err2]) (simp_all add: a g2)
  have r3: "attempts cfg e ?d ?n model 3 ?s2 = (Some result, ?s3)"
    by (rule attempts_success_to) (simp_all add: a)
  have "attempts cfg e ?d ?n model 1 initial_state = (Some result, ?s3)"
    by (simp only: r1 r2 r3)
  then have "try_models cfg e ?d ?n (model # models) initial_state = (Some result, ?s3)"
    by (rule try_models_Some)
  with a show "generate_with cfg (model # models) e input =
        (Inr result, [Invoke model, Sleep 1000, Invoke model, Sleep 2000, Invoke model])"
    by (simp add: generate_with_valid)
qed


theorem retryable_failure_backs_off_then_retries_witness:
  "isRetryableError (ClientError ''429 rate limit exceeded'')
   \<and> \<not> is_not_found (ClientError ''429 rate limit exceeded'')
   \<and> attempts ItineraryGenerator (sample_env rate_limited_twice) ''Paris'' 1 ''gemini-2.5-flash'' 1
         initial_state =
       attempts ItineraryGenerator (sample_env rate_limited_twice) ''Paris'' 1 ''gemini-2.5-flash'' 2
         \<lparr>lastError = Some (ClientError ''429 rate limit exceeded''), calls = 1,
          trace = [Invoke ''gemini-2.5-flash'', Sleep 1000]\<rparr>
   \<and> generateItinerary (sample_env rate_limited_twice) (paris 1) =
       (Inr (sample_itinerary (sample_env rate_limited_twice) 2),
        [Invoke ''gemini-2.5-flash'', Sleep 1000, Invoke ''gemini-2.5-flash'', Sleep 2000,
         Invoke ''gemini-2.5-flash''])"
proof -
  let ?e = "sample_env rate_limited_twice"
  let ?err = "ClientError ''429 rate limit exceeded''"
  let ?m = "''gemini-2.5-flash''"
  have g0: "generateWithTimeout ?e 0 ?m ''Paris'' 1 = Inl ?err"
    by (rule generateWithTimeout_rejects) (simp add: sample_env_def rate_limited_twice_def)
  have g1: "generateWithTimeout ?e 1 ?m ''Paris'' 1 = Inl ?err"
    by (rule generateWithTimeout_rejects) (simp add: sample_env_def rate_limited_twice_def)
  have g2: "generateWithTimeout ?e 2 ?m ''Paris'' 1 = Inr (sample_itinerary ?e 2)"
    by (rule generate_sample) (simp add: rate_limited_twice_def)
  note t = retryable_failure_backs_off_then_retries
             [where attempt = 1 and cfg = ItineraryGenerator and e = ?e and st = initial_state
                and model = ?m and dest = "''Paris''" and dur = 1 and err = ?err
                and input = "paris 1" and ?err1.0 = ?err and ?err2.0 = ?err
                and result = "sample_itinerary ?e 2"
                and models = "[''gemini-2.5-pro'', ''gemini-1.5-pro'', ''gemini-1.5-flash'']"]
  have c0: "calls initial_state = 0"
    by (simp add: initial_state_def)
  have "attempts ItineraryGenerator ?e ''Paris'' 1 ?m 1 initial_state =
      attempts ItineraryGenerator ?e ''Paris'' 1 ?m (1 + 1)
        (initial_state\<lparr>lastError := Some ?err, calls := Suc (calls initial_state),
            trace := trace initial_state @
              [Invoke ?m, Sleep (retryDelay ItineraryGenerator * 2 ^ (1 - 1))]\<rparr>)"
    using conjunct1 [OF t] g0 rate_limit_message c0 by simp
  moreover have "(1::nat) + 1 = 2"
    by simp
  moreover have "initial_state\<lparr>lastError := Some ?err, calls := Suc (calls initial_state),
            trace := trace initial_state @
              [Invoke ?m, Sleep (retryDelay ItineraryGenerator * 2 ^ (1 - 1))]\<rparr> =
         \<lparr>lastError = Some ?err, calls = 1, trace = [Invoke ?m, Sleep 1000]\<rparr>"
    by (simp add: initial_state_def)
  ultimately have step: "attempts ItineraryGenerator ?e ''Paris'' 1 ?m 1 initial_state =
       attempts ItineraryGenerator ?e ''Paris'' 1 ?m 2
         \<lparr>lastError = Some ?err, calls = 1, trace = [Invoke ?m, Sleep 1000]\<rparr>"
    by (simp only:)
  have "generate_with ItineraryGenerator
          (?m # [''gemini-2.5-pro'', ''gemini-1.5-pro'', ''gemini-1.5-flash'']) ?e (paris 1) =
        (Inr (sample_itinerary ?e 2), [Invoke ?m, Sleep 1000, Invoke ?m, Sleep 2000, Invoke ?m])"
    using conjunct2 [OF t] g0 g1 g2 rate_limit_message
    by (simp add: paris_fields trim_paris)
  then have run: "generateItinerary ?e (paris 1) =
        (Inr (sample_itinerary ?e 2), [Invoke ?m, Sleep 1000, Invoke ?m, Sleep 2000, Invoke ?m])"
    by (simp add: generateItinerary_def FALLBACK_MODELS_def)
  from step run rate_limit_message show ?thesis by blast
qed

subsection \<open>The error of an exhausted cascade\<close>

lemma invocations_simps [simp]:
  "invocations [] = []"
  "invocations (Invoke m # tr) = m # invocations tr"
  "invocations (Sleep d # tr) = invocations tr"
  "invocations (tr @ tr') = invocations tr @ invocations tr'"
  by (simp_all add: invocations_def)

lemma last_call_failed_initial: "last_call_failed e dest dur initial_state"
  by (simp add: last_call_failed_def initial_state_def)

lemma last_call_failed_step:
  assumes "last_call_failed e dest dur st"
    and "generateWithTimeout e (calls st) model dest dur = Inl err"
  shows "last_call_failed e dest dur
           (st\<lparr>lastError := Some err, calls := Suc (calls st), trace := trace st @ Invoke model # evs\<rparr>)
         \<longleftrightarrow> invocations evs = []"
  using assms by (auto simp: last_call_failed_def)

lemma attempts_keeps_last_call:
  assumes "last_call_failed e dest dur st"
    and "attempts cfg e dest dur model attempt st = (None, st')"
  shows "last_call_failed e dest dur st'"
  using assms
proof (induction "Suc (maxRetries cfg) - attempt" arbitrary: attempt st)
  case 0
  then have "maxRetries cfg < attempt" by simp
  with 0 show ?case by (simp add: attempts_over)
next
  case (Suc k)
  then have le: "attempt \<le> maxRetries cfg" by simp
  show ?case
  proof (cases "generateWithTimeout e (calls st) model dest dur")
    case (Inr result)
    with le Suc.prems(2) show ?thesis by (simp add: attempts_success)
  next
    case (Inl err)
    show ?thesis
    proof (cases "is_not_found err")
      case True
      with le Inl Suc.prems show ?thesis
        using last_call_failed_step [OF Suc.prems(1) Inl, of "[]"]
        by (auto simp: attempts_not_found)
    next
      case nf: False
      show ?thesis
      proof (cases "isRetryableError err \<and> attempt < maxRetries cfg")
        case False
        then have "attempts cfg e dest dur model attempt st =
           (None, st\<lparr>lastError := Some err, calls := Suc (calls st),
                      trace := trace st @ [Invoke model]\<rparr>)"
          using le Inl nf by (intro attempts_give_up) auto
        with Suc.prems show ?thesis
          using last_call_failed_step [OF Suc.prems(1) Inl, of "[]"] by auto
      next
        case True
        let ?st = "st\<lparr>lastError := Some err, calls := Suc (calls st),
                 trace := trace st @ [Invoke model, Sleep (retryDelay cfg * 2 ^ (attempt - 1))]\<rparr>"
        have step: "attempts cfg e dest dur model attempt st = attempts cfg e dest dur model (attempt + 1) ?st"
          using True Inl nf by (intro attempts_retry) auto
        have inv: "last_call_failed e dest dur ?st"
          using last_call_failed_step [OF Suc.prems(1) Inl, of "[Sleep (retryDelay cfg * 2 ^ (attempt - 1))]"]
          by simp
        from Suc(2) have k: "k = Suc (maxRetries cfg) - (attempt + 1)" by simp
        from Suc.prems(2) step have "attempts cfg e dest dur model (attempt + 1) ?st = (None, st')"
          by simp
        with Suc(1) [OF k inv] show ?thesis .
      qed
    qed
  qed
qed

lemma try_models_keeps_last_call:
  assumes "last_call_failed e dest dur st"
    and "try_models cfg e dest dur models st = (None, st')"
  shows "last_call_failed e dest dur st'"
  using assms
proof (induction models arbitrary: st)
  case Nil
  then show ?case by simp
next
  case (Cons model models)
  obtain r st1 where a: "attempts cfg e dest dur model 1 st = (r, st1)"
    by (cases "attempts cfg e dest dur model 1 st")
  show ?case
  proof (cases r)
    case (Some result)
    with a Cons.prems(2) show ?thesis by simp
  next
    case None
    with a Cons.prems(1) have "last_call_failed e dest dur st1"
      using attempts_keeps_last_call by blast
    moreover from a None Cons.prems(2) have "try_models cfg e dest dur models st1 = (None, st')"
      by simp
    ultimately show ?thesis by (rule Cons.IH)
  qed
qed

lemma exhausted_generate_with:
  assumes "trim (input_destination input) \<noteq> []" and "1 \<le> input_duration input"
    and "generate_with cfg models e input = (Inl failure, tr)"
  shows "if invocations tr = [] then failure = Classified (handleError AllModelsFailed)
         else \<exists>err. generateWithTimeout e (length (invocations tr) - 1) (last (invocations tr))
                        (input_destination input) (input_duration input) = Inl err
                    \<and> failure = Classified (handleError err)"
proof -
  let ?d = "input_destination input" and ?n = "input_duration input"
  obtain r st where t: "try_models cfg e ?d ?n models initial_state = (r, st)"
    by (cases "try_models cfg e ?d ?n models initial_state")
  with assms have none: "r = None" and f: "failure = Classified (handleError
                     (case lastError st of None \<Rightarrow> AllModelsFailed | Some err \<Rightarrow> err))"
      and tr: "tr = trace st"
    by (auto simp: generate_with_valid split: option.splits)
  from t none have "last_call_failed e ?d ?n st"
    using try_models_keeps_last_call [OF last_call_failed_initial] by blast
  then show ?thesis
    using f tr by (auto simp: last_call_failed_def)
qed

lemma handleError_AllModelsFailed: "handleError AllModelsFailed = Unknown"
  by (simp add: handleError_def includes_str_def sublist_code)

lemma attempts_all_time_out:
  assumes all: "\<forall>n m. \<exists>err. generateWithTimeout e n m dest dur = Inl err
                  \<and> includes_str (message err) ''timeout'' \<and> \<not> is_not_found err"
    and "attempt \<le> maxRetries cfg"
  shows "\<exists>st'. attempts cfg e dest dur model attempt st = (None, st')
           \<and> length (invocations (trace st')) =
               length (invocations (trace st)) + (Suc (maxRetries cfg) - attempt)
           \<and> calls st' = calls st + (Suc (maxRetries cfg) - attempt)
           \<and> (\<exists>err. lastError st' = Some err \<and> includes_str (message err) ''timeout'')"
  using assms(2)
proof (induction "maxRetries cfg - attempt" arbitrary: attempt st)
  case 0
  then have eq: "attempt = maxRetries cfg" by simp
  obtain err where err: "generateWithTimeout e (calls st) model dest dur = Inl err"
      "includes_str (message err) ''timeout''" "\<not> is_not_found err"
    using all by blast
  have "attempts cfg e dest dur model attempt st =
           (None, st\<lparr>lastError := Some err, calls := Suc (calls st),
                      trace := trace st @ [Invoke model]\<rparr>)"
    using err eq by (intro attempts_give_up) auto
  with err(2) eq show ?case by simp
next
  case (Suc k)
  then have lt: "attempt < maxRetries cfg" by simp
  obtain err where err: "generateWithTimeout e (calls st) model dest dur = Inl err"
      "includes_str (message err) ''timeout''" "\<not> is_not_found err"
    using all by blast
  let ?st = "st\<lparr>lastError := Some err, calls := Suc (calls st),
                 trace := trace st @ [Invoke model, Sleep (retryDelay cfg * 2 ^ (attempt - 1))]\<rparr>"
  have step: "attempts cfg e dest dur model attempt st = attempts cfg e dest dur model (attempt + 1) ?st"
    using lt err(1,3) timeout_is_retryable [OF err(2)] by (rule attempts_retry)
  from Suc(2) have k: "k = maxRetries cfg - (attempt + 1)" by simp
  from lt have le: "attempt + 1 \<le> maxRetries cfg" by simp
  obtain st' where st': "attempts cfg e dest dur model (attempt + 1) ?st = (None, st')"
      "length (invocations (trace st')) =
         length (invocations (trace ?st)) + (Suc (maxRetries cfg) - (attempt + 1))"
      "calls st' = calls ?st + (Suc (maxRetries cfg) - (attempt + 1))"
      "\<exists>err. lastError st' = Some err \<and> includes_str (message err) ''timeout''"
    using Suc(1) [OF k le, of ?st] by blast
  have "attempts cfg e dest dur model attempt st = (None, st')"
    using step st'(1) by simp
  moreover have "length (invocations (trace st')) =
               length (invocations (trace st)) + (Suc (maxRetries cfg) - attempt)"
    using st'(2) lt by simp
  moreover have "calls st' = calls st + (Suc (maxRetries cfg) - attempt)"
    using st'(3) lt by simp
  ultimately show ?case using st'(4) by blast
qed

lemma two_models_all_time_out:
  assumes all: "\<forall>n m. \<exists>err. generateWithTimeout e n m dest dur = Inl err
                  \<and> includes_str (message err) ''timeout'' \<and> \<not> is_not_found err"
    and "1 \<le> maxRetries cfg"
  shows "\<exists>st err. try_models cfg e dest dur [a, b] initial_state = (None, st)
           \<and> length (invocations (trace st)) = maxRetries cfg * 2
           \<and> lastError st = Some err \<and> includes_str (message err) ''timeout''"
proof -
  obtain st1 where st1: "attempts cfg e dest dur a 1 initial_state = (None, st1)"
      "length (invocations (trace st1)) =
         length (invocations (trace initial_state)) + (Suc (maxRetries cfg) - 1)"
    using attempts_all_time_out [OF all assms(2), of a initial_state] by blast
  obtain st2 err where st2: "attempts cfg e dest dur b 1 st1 = (None, st2)"
      "length (invocations (trace st2)) = length (invocations (trace st1)) + (Suc (maxRetries cfg) - 1)"
      "lastError st2 = Some err" "includes_str (message err) ''timeout''"
    using attempts_all_time_out [OF all assms(2), of b st1] by blast
  have "try_models cfg e dest dur [a, b] initial_state = (None, st2)"
    using st1(1) st2(1) by simp
  moreover have "length (invocations (trace st2)) = maxRetries cfg * 2"
    using st1(2) st2(2) by (simp add: initial_state_def)
  ultimately show ?thesis using st2(3,4) by blast
qed

lemma two_models_time_out_run:
  assumes "trim (input_destination input) \<noteq> []" and "1 \<le> input_duration input"
    and "1 \<le> maxRetries cfg"
    and "\<forall>n m. \<exists>err. generateWithTimeout e n m (input_destination input) (input_duration input)
                          = Inl err
                       \<and> includes_str (message err) ''timeout'' \<and> \<not> is_not_found err"
  shows "\<exists>tr. generate_with cfg [a, b] e input = (Inl (Classified Timeout), tr)
           \<and> length (invocations tr) = maxRetries cfg * 2"
proof -
  let ?d = "input_destination input" and ?n = "input_duration input"
  obtain st err where st: "try_models cfg e ?d ?n [a, b] initial_state = (None, st)"
      "length (invocations (trace st)) = maxRetries cfg * 2"
      "lastError st = Some err" "includes_str (message err) ''timeout''"
    using two_models_all_time_out [OF assms(4,3), of a b] by blast
  have "generate_with cfg [a, b] e input = (Inl (Classified Timeout), trace st)"
    using assms(1,2) st(1,3) timeout_is_Timeout [OF st(4)] by (simp add: generate_with_valid)
  with st(2) show ?thesis by blast
qed

lemma always_times_out_run:
  assumes "1 \<le> maxRetries cfg"
  shows "\<exists>tr. generate_with cfg [a, b] (sample_env always_times_out) (paris 2) = (Inl (Classified Timeout), tr)
           \<and> length (invocations tr) = maxRetries cfg * 2"
proof (rule two_models_time_out_run)
  have "generateWithTimeout (sample_env always_times_out) n m ''Paris'' 2 = Inl RequestTimeout" for n m
    by (rule generateWithTimeout_times_out) (simp add: sample_env_def always_times_out_def)
  then show "\<forall>n m. \<exists>err. generateWithTimeout (sample_env always_times_out) n m
                  (input_destination (paris 2)) (input_duration (paris 2)) = Inl err
                       \<and> includes_str (message err) ''timeout'' \<and> \<not> is_not_found err"
    using timeout_message by (auto simp: paris_fields)
qed (use assms in \<open>simp_all add: paris_fields trim_paris\<close>)

text \<open>
  C4, as stated, fails on the attempt count: the error that is thrown has a message and
  nothing else. Two runs in which both models of a list of two time out on every attempt,
  one with three attempts per model and one with a single attempt, fail with the same
  error after six calls and after two.
\<close>

theorem returned_error_carries_no_attempt_count:
  "fst (generate_with ItineraryGenerator [''gemini-2.5-flash'', ''gemini-2.5-pro'']
          (sample_env always_times_out) (paris 2)) = Inl (Classified Timeout)
   \<and> length (invocations (snd (generate_with ItineraryGenerator [''gemini-2.5-flash'', ''gemini-2.5-pro'']
          (sample_env always_times_out) (paris 2)))) = 6
   \<and> fst (generate_with (ItineraryGenerator\<lparr>maxRetries := 1\<rparr>) [''gemini-2.5-flash'', ''gemini-2.5-pro'']
          (sample_env always_times_out) (paris 2)) = Inl (Classified Timeout)
   \<and> length (invocations (snd (generate_with (ItineraryGenerator\<lparr>maxRetries := 1\<rparr>)
          [''gemini-2.5-flash'', ''gemini-2.5-pro''] (sample_env always_times_out) (paris 2)))) = 2"
proof -
  obtain tr where "generate_with ItineraryGenerator [''gemini-2.5-flash'', ''gemini-2.5-pro'']
          (sample_env always_times_out) (paris 2) = (Inl (Classified Timeout), tr)"
      "length (invocations tr) = maxRetries ItineraryGenerator * 2"
    using always_times_out_run [of ItineraryGenerator] by auto
  moreover obtain tr' where "generate_with (ItineraryGenerator\<lparr>maxRetries := 1\<rparr>)
          [''gemini-2.5-flash'', ''gemini-2.5-pro''] (sample_env always_times_out) (paris 2)
            = (Inl (Classified Timeout), tr')"
      "length (invocations tr') = maxRetries (ItineraryGenerator\<lparr>maxRetries := 1\<rparr>) * 2"
    using always_times_out_run [of "ItineraryGenerator\<lparr>maxRetries := 1\<rparr>"] by auto
  ultimately show ?thesis by simp
qed

text \<open>
  C4, amended. When no model of the list answers, \<open>generateItinerary\<close> fails with one
  error, which \<open>handleError\<close> makes from the error of the last call of the run alone (the
  errors of earlier calls play no part) and which is one of its five kinds. When each
  attempt on each model of a list of two fails with a timeout, the kind is \<open>Timeout\<close>
  and the run has made \<open>maxRetries * 2\<close> calls; that number is a fact about the run, not
  a field of the error.
\<close>

theorem exhausted_cascade_returns_last_error:
  "(trim (input_destination input) \<noteq> [] \<and> 1 \<le> input_duration input
      \<and> generate_with cfg models e input = (Inl failure, tr) \<longrightarrow>
      (\<exists>kind. failure = Classified kind)
      \<and> (if invocations tr = [] then failure = Classified Unknown
         else \<exists>err. generateWithTimeout e (length (invocations tr) - 1) (last (invocations tr))
                        (input_destination input) (input_duration input) = Inl err
                    \<and> failure = Classified (handleError err)))
   \<and> (trim (input_destination input) \<noteq> [] \<and> 1 \<le> input_duration input \<and> 1 \<le> maxRetries cfg
        \<and> (\<forall>n m. \<exists>err. generateWithTimeout e n m (input_destination input) (input_duration input)
                          = Inl err
                       \<and> includes_str (message err) ''timeout'' \<and> \<not> is_not_found err) \<longrightarrow>
      (\<exists>tr. generate_with cfg [a, b] e input = (Inl (Classified Timeout), tr)
           \<and> length (invocations tr) = maxRetries cfg * 2))"
proof (intro conjI impI)
  assume a: "trim (input_destination input) \<noteq> [] \<and> 1 \<le> input_duration input
      \<and> generate_with cfg models e input = (Inl failure, tr)"
  then have x: "if invocations tr = [] then failure = Classified (handleError AllModelsFailed)
         else \<exists>err. generateWithTimeout e (length (invocations tr) - 1) (last (invocations tr))
                        (input_destination input) (input_duration input) = Inl err
                    \<and> failure = Classified (handleError err)"
    using exhausted_generate_with by blast
  then show "if invocations tr = [] then failure = Classified Unknown
         else \<exists>err. generateWithTimeout e (length (invocations tr) - 1) (last (invocations tr))
                        (input_destination input) (input_duration input) = Inl err
                    \<and> failure = Classified (handleError err)"
    by (simp only: handleError_AllModelsFailed)
  from x show "\<exists>kind. failure = Classified kind"
    by (auto split: if_splits)
next
  assume "trim (input_destination input) \<noteq> [] \<and> 1 \<le> input_duration input \<and> 1 \<le> maxRetries cfg
        \<and> (\<forall>n m. \<exists>err. generateWithTimeout e n m (input_destination input) (input_duration input)
                          = Inl err
                       \<and> includes_str (message err) ''timeout'' \<and> \<not> is_not_found err)"
  then show "\<exists>tr. generate_with cfg [a, b] e input = (Inl (Classified Timeout), tr)
           \<and> length (invocations tr) = maxRetries cfg * 2"
    using two_models_time_out_run [of input cfg e a b] by blast
qed

theorem exhausted_cascade_returns_last_error_witness:
  "generateWithTimeout (sample_env always_times_out) 5 ''gemini-2.5-pro'' ''Paris'' 2 = Inl RequestTimeout
   \<and> includes_str (message RequestTimeout) ''timeout''
   \<and> (\<exists>tr. generate_with ItineraryGenerator [''gemini-2.5-flash'', ''gemini-2.5-pro'']
              (sample_env always_times_out) (paris 2) = (Inl (Classified Timeout), tr)
           \<and> length (invocations tr) = 3 * 2
           \<and> (\<exists>err. generateWithTimeout (sample_env always_times_out) (length (invocations tr) - 1)
                        (last (invocations tr)) ''Paris'' 2 = Inl err
                    \<and> Classified Timeout = Classified (handleError err)))"
proof -
  let ?e = "sample_env always_times_out"
  let ?ms = "[''gemini-2.5-flash'', ''gemini-2.5-pro'']"
  have g: "generateWithTimeout ?e n m ''Paris'' 2 = Inl RequestTimeout" for n m
    by (rule generateWithTimeout_times_out) (simp add: sample_env_def always_times_out_def)
  have all: "\<forall>n m. \<exists>err. generateWithTimeout ?e n m (input_destination (paris 2)) (input_duration (paris 2))
                          = Inl err
                       \<and> includes_str (message err) ''timeout'' \<and> \<not> is_not_found err"
    using g timeout_message by (auto simp: paris_fields)
  have v: "trim (input_destination (paris 2)) \<noteq> [] \<and> 1 \<le> input_duration (paris 2)"
      and m: "1 \<le> maxRetries ItineraryGenerator"
    by (simp_all add: paris_fields trim_paris)
  note t = exhausted_cascade_returns_last_error
             [where cfg = ItineraryGenerator and e = ?e and input = "paris 2"
                and a = "''gemini-2.5-flash''" and b = "''gemini-2.5-pro''" and models = ?ms]
  obtain tr where tr: "generate_with ItineraryGenerator ?ms ?e (paris 2) = (Inl (Classified Timeout), tr)"
      "length (invocations tr) = maxRetries ItineraryGenerator * 2"
    using conjunct2 [OF t] v m all by blast
  have ne: "invocations tr \<noteq> []"
    using tr(2) by auto
  have "\<exists>err. generateWithTimeout ?e (length (invocations tr) - 1) (last (invocations tr))
                (input_destination (paris 2)) (input_duration (paris 2)) = Inl err
            \<and> Classified Timeout = Classified (handleError err)"
    using conjunct1 [OF t, of "Classified Timeout" tr] v tr(1) ne by presburger
  then have last: "\<exists>err. generateWithTimeout ?e (length (invocations tr) - 1) (last (invocations tr))
                ''Paris'' 2 = Inl err
            \<and> Classified Timeout = Classified (handleError err)"
    by (simp only: paris_fields)
  from tr(2) have len: "length (invocations tr) = 3 * 2"
    by simp
  from tr(1) len last g [of 5 "''gemini-2.5-pro''"] timeout_message(2) show ?thesis
    by blast
qed

subsection \<open>What the schemas let through\<close>

lemma those_map_Some:
  "those (map f xs) = Some ys \<Longrightarrow> list_all2 (\<lambda>x y. f x = Some y) xs ys"
proof (induction xs arbitrary: ys)
  case Nil
  then show ?case by simp
next
  case (Cons x xs)
  then show ?case by (auto split: option.splits)
qed

lemma z_array_Some:
  assumes "z_array schema v = Some ys"
  shows "\<exists>vs. v = JArr vs \<and> list_all2 (\<lambda>x y. schema x = Some y) vs ys"
  using assms by (auto simp: z_array_def those_map_Some split: json.splits)

lemma required_Some:
  assumes "required props k schema = Some y"
  shows "\<exists>v. map_of props k = Some v \<and> schema v = Some y"
  using assms by (auto simp: required_def split: option.splits)

lemma z_string_Some: "z_string v = Some s \<longleftrightarrow> v = JStr s"
  by (cases v) auto

lemma z_time_Some: "z_time v = Some s \<longleftrightarrow> v = JStr s \<and> time_regex s"
  by (cases v) auto

lemma z_int_positive_Some:
  assumes "z_int_positive v = Some d"
  shows "v = JNum (of_int d) \<and> 0 < d"
proof (cases v)
  case (JNum q)
  show ?thesis
  proof (cases "of_int \<lfloor>q\<rfloor> = q \<and> 0 < q")
    case True
    have "z_int_positive (JNum q) = Some \<lfloor>q\<rfloor>"
      by (simp only: z_int_positive.simps if_P [OF True])
    moreover from assms have "z_int_positive (JNum q) = Some d"
      unfolding JNum .
    ultimately have d: "d = \<lfloor>q\<rfloor>"
      by (simp only: option.inject)
    from True have fl: "of_int \<lfloor>q\<rfloor> = q" and pos: "0 < q"
      by (rule conjunct1, rule conjunct2)
    from fl have q: "q = of_int d"
      unfolding d by (rule sym)
    from pos have "0 < d"
      unfolding q by (simp only: of_int_0_less_iff)
    with q show ?thesis
      unfolding JNum by (simp only: simp_thms)
  next
    case False
    have "z_int_positive (JNum q) = None"
      by (simp only: z_int_positive.simps if_not_P [OF False])
    with assms JNum show ?thesis
      by (simp only: option.distinct)
  qed
qed (use assms in simp_all)

lemma z_category_Some: "z_category v = Some c \<Longrightarrow> v = JStr (category_name c)"
  by (cases v) (auto split: if_splits)

lemma ActivitySchema_Some:
  assumes "ActivitySchema v = Some a"
  shows "same_activity v a \<and> time_regex (time a)"
proof -
  from assms obtain props where v: "v = JObj props"
    by (cases v) (simp_all add: ActivitySchema_def)
  from assms obtain t n l d where
      f: "required props ''time'' z_time = Some t" "required props ''name'' z_string = Some n"
         "required props ''location'' z_string = Some l"
         "required props ''description'' z_string = Some d"
      and a: "a = \<lparr>time = t, name = n, location = l, description = d\<rparr>"
    unfolding v ActivitySchema_def by (auto simp: bind_eq_Some_conv)
  have "map_of props ''time'' = Some (JStr t)" "time_regex t"
    using required_Some [OF f(1)] by (auto simp: z_time_Some)
  moreover have "map_of props ''name'' = Some (JStr n)"
    using required_Some [OF f(2)] by (auto simp: z_string_Some)
  moreover have "map_of props ''location'' = Some (JStr l)"
    using required_Some [OF f(3)] by (auto simp: z_string_Some)
  moreover have "map_of props ''description'' = Some (JStr d)"
    using required_Some [OF f(4)] by (auto simp: z_string_Some)
  ultimately show ?thesis
    by (simp add: same_activity_def json_field_def v a)
qed

lemma DailyScheduleSchema_Some:
  assumes "DailyScheduleSchema v = Some s"
  shows "json_field ''day'' v = Some (JNum (of_int (day s))) \<and> 0 < day s
         \<and> 3 \<le> length (activities s)
         \<and> list_all2 (\<lambda>x a. ActivitySchema x = Some a) (schedule_activities v) (activities s)"
proof -
  from assms obtain props where v: "v = JObj props"
    by (cases v) (simp_all add: DailyScheduleSchema_def)
  from assms obtain d acts where
      f: "required props ''day'' z_int_positive = Some d"
         "required props ''activities'' (\<lambda>a. z_min 3 (z_array ActivitySchema a)) = Some acts"
      and s: "s = \<lparr>day = d, activities = acts\<rparr>"
    unfolding v DailyScheduleSchema_def by (auto simp: bind_eq_Some_conv)
  obtain dv where dv: "map_of props ''day'' = Some dv" "z_int_positive dv = Some d"
    using required_Some [OF f(1)] by blast
  obtain av where av: "map_of props ''activities'' = Some av"
      "z_min 3 (z_array ActivitySchema av) = Some acts"
    using required_Some [OF f(2)] by blast
  from av(2) have arr: "z_array ActivitySchema av = Some acts" and len: "3 \<le> length acts"
    by (auto simp: z_min_def split: option.splits if_splits)
  obtain vs where vs: "av = JArr vs" "list_all2 (\<lambda>x a. ActivitySchema x = Some a) vs acts"
    using z_array_Some [OF arr] by blast
  have "dv = JNum (of_int d)" "0 < d"
    using z_int_positive_Some [OF dv(2)] by blast+
  with dv(1) av(1) vs len show ?thesis
    by (simp add: v s json_field_def schedule_activities_def json_items_def)
qed

lemma RecommendationSchema_Some:
  assumes "RecommendationSchema v = Some r"
  shows "same_recommendation v r"
proof -
  from assms obtain props where v: "v = JObj props"
    by (cases v) (simp_all add: RecommendationSchema_def)
  from assms obtain c n d l where
      f: "required props ''category'' z_category = Some c" "required props ''name'' z_string = Some n"
         "required props ''description'' z_string = Some d"
         "optional props ''location'' z_string = Some l"
      and r: "r = \<lparr>category = c, rec_name = n, rec_description = d, rec_location = l\<rparr>"
    unfolding v RecommendationSchema_def by (auto simp: bind_eq_Some_conv)
  have "map_of props ''category'' = Some (JStr (category_name c))"
    using required_Some [OF f(1)] by (auto dest: z_category_Some)
  moreover have "map_of props ''name'' = Some (JStr n)"
    using required_Some [OF f(2)] by (auto simp: z_string_Some)
  moreover have "map_of props ''description'' = Some (JStr d)"
    using required_Some [OF f(3)] by (auto simp: z_string_Some)
  moreover from f(4) have "map_of props ''location'' = map_option JStr l"
    by (auto simp: optional_def z_string_Some split: option.splits)
  ultimately show ?thesis
    by (simp add: same_recommendation_def json_field_def v r)
qed

lemma ItineraryResponseSchema_Some:
  assumes "ItineraryResponseSchema v = Some resp"
  shows "list_all2 (\<lambda>x s. DailyScheduleSchema x = Some s) (response_schedules v) (resp_dailySchedules resp)
         \<and> list_all2 (\<lambda>x r. RecommendationSchema x = Some r) (response_recommendations v)
              (resp_recommendations resp)"
proof -
  from assms obtain props where v: "v = JObj props"
    by (cases v) (simp_all add: ItineraryResponseSchema_def)
  from assms obtain ds rs where
      f: "required props ''dailySchedules'' (z_array DailyScheduleSchema) = Some ds"
         "required props ''recommendations'' (z_array RecommendationSchema) = Some rs"
      and r: "resp = \<lparr>resp_dailySchedules = ds, resp_recommendations = rs\<rparr>"
    unfolding v ItineraryResponseSchema_def by (auto simp: bind_eq_Some_conv)
  obtain dv where dv: "map_of props ''dailySchedules'' = Some dv"
      "z_array DailyScheduleSchema dv = Some ds"
    using required_Some [OF f(1)] by blast
  obtain rv where rv: "map_of props ''recommendations'' = Some rv"
      "z_array RecommendationSchema rv = Some rs"
    using required_Some [OF f(2)] by blast
  obtain dvs where "dv = JArr dvs" "list_all2 (\<lambda>x s. DailyScheduleSchema x = Some s) dvs ds"
    using z_array_Some [OF dv(2)] by blast
  moreover obtain rvs where "rv = JArr rvs" "list_all2 (\<lambda>x r. RecommendationSchema x = Some r) rvs rs"
    using z_array_Some [OF rv(2)] by blast
  moreover note dv(1) rv(1)
  ultimately show ?thesis
    by (simp add: v r json_field_def response_schedules_def response_recommendations_def
          json_items_def)
qed

lemma build_itinerary_Inr:
  assumes "build_itinerary e n dest dur parsed = Inr it"
  shows "\<exists>v resp. parsed = Inr v \<and> ItineraryResponseSchema v = Some resp
           \<and> int (length (resp_dailySchedules resp)) = dur
           \<and> it = \<lparr>itinerary_id = generateId e n 0, destination = dest, duration = dur,
                    dailySchedules = map sort_activities (resp_dailySchedules resp),
                    recommendations =
                      map (\<lambda>(k, r). with_id (generateId e n (Suc k)) r)
                        (enumerate 0 (resp_recommendations resp)),
                    generatedAt = now e n\<rparr>"
proof (cases parsed)
  case (Inl err)
  with assms show ?thesis by (simp add: build_itinerary_def)
next
  case (Inr v)
  show ?thesis
  proof (cases "ItineraryResponseSchema v")
    case None
    with assms Inr show ?thesis by (simp add: build_itinerary_def)
  next
    case (Some resp)
    with assms Inr show ?thesis
      by (simp add: build_itinerary_def Let_def split: if_splits)
  qed
qed

subsection \<open>Where a result comes from\<close>

lemma list_all2_in_set2:
  assumes "list_all2 P xs ys" and "y \<in> set ys"
  shows "\<exists>x \<in> set xs. P x y"
proof -
  from assms(2) obtain i where i: "i < length ys" "ys ! i = y"
    by (auto simp: in_set_conv_nth)
  with assms(1) have "P (xs ! i) y" "i < length xs"
    by (auto simp: list_all2_conv_all_nth)
  then show ?thesis
    using nth_mem by blast
qed

lemma list_all2_in_set1:
  assumes "list_all2 P xs ys" and "x \<in> set xs"
  shows "\<exists>y \<in> set ys. P x y"
proof -
  from assms(2) obtain i where i: "i < length xs" "xs ! i = x"
    by (auto simp: in_set_conv_nth)
  with assms(1) have "P x (ys ! i)" "i < length ys"
    by (auto simp: list_all2_conv_all_nth)
  then show ?thesis
    using nth_mem by blast
qed

lemma attempts_result:
  assumes "attempts cfg e dest dur model attempt st = (Some it, st')"
  shows "\<exists>n. generateWithTimeout e n model dest dur = Inr it"
  using assms
proof (induction "Suc (maxRetries cfg) - attempt" arbitrary: attempt st)
  case 0
  then have "maxRetries cfg < attempt" by simp
  with 0 show ?case by (simp add: attempts_over)
next
  case (Suc k)
  then have le: "attempt \<le> maxRetries cfg" by simp
  show ?case
  proof (cases "generateWithTimeout e (calls st) model dest dur")
    case (Inr result)
    with le Suc.prems have "result = it" by (simp add: attempts_success)
    with Inr show ?thesis by blast
  next
    case (Inl err)
    show ?thesis
    proof (cases "is_not_found err")
      case True
      with le Inl Suc.prems show ?thesis by (simp add: attempts_not_found)
    next
      case nf: False
      show ?thesis
      proof (cases "isRetryableError err \<and> attempt < maxRetries cfg")
        case False
        then have "attempts cfg e dest dur model attempt st =
           (None, st\<lparr>lastError := Some err, calls := Suc (calls st),
                      trace := trace st @ [Invoke model]\<rparr>)"
          using le Inl nf by (intro attempts_give_up) auto
        with Suc.prems show ?thesis by simp
      next
        case True
        let ?st = "st\<lparr>lastError := Some err, calls := Suc (calls st),
                 trace := trace st @ [Invoke model, Sleep (retryDelay cfg * 2 ^ (attempt - 1))]\<rparr>"
        have step: "attempts cfg e dest dur model attempt st = attempts cfg e dest dur model (attempt + 1) ?st"
          using True Inl nf by (intro attempts_retry) auto
        from Suc(2) have k: "k = Suc (maxRetries cfg) - (attempt + 1)" by simp
        from Suc.prems step have "attempts cfg e dest dur model (attempt + 1) ?st = (Some it, st')"
          by simp
        with Suc(1) [OF k] show ?thesis .
      qed
    qed
  qed
qed

lemma try_models_result:
  assumes "try_models cfg e dest dur models st = (Some it, st')"
  shows "\<exists>n model. generateWithTimeout e n model dest dur = Inr it"
  using assms
proof (induction models arbitrary: st)
  case Nil
  then show ?case by simp
next
  case (Cons model models)
  obtain r st1 where a: "attempts cfg e dest dur model 1 st = (r, st1)"
    by (cases "attempts cfg e dest dur model 1 st")
  show ?case
  proof (cases r)
    case None
    with a Cons.prems have "try_models cfg e dest dur models st1 = (Some it, st')"
      by simp
    then show ?thesis by (rule Cons.IH)
  next
    case (Some result)
    with a Cons.prems have "attempts cfg e dest dur model 1 st = (Some it, st1)"
      by simp
    then have "\<exists>n. generateWithTimeout e n model dest dur = Inr it"
      by (rule attempts_result)
    then show ?thesis by blast
  qed
qed

lemma generate_with_result:
  assumes "generate_with cfg models e input = (Inr it, tr)"
  shows "\<exists>n parsed. build_itinerary e n (input_destination input) (input_duration input) parsed = Inr it"
proof -
  let ?d = "input_destination input" and ?n = "input_duration input"
  from assms have valid: "trim ?d \<noteq> []" "1 \<le> ?n"
    by (auto simp: generate_with_def split: if_splits)
  obtain r st where t: "try_models cfg e ?d ?n models initial_state = (r, st)"
    by (cases "try_models cfg e ?d ?n models initial_state")
  with assms valid have "r = Some it"
    by (cases r) (simp_all add: generate_with_valid)
  with t obtain n model where "generateWithTimeout e n model ?d ?n = Inr it"
    using try_models_result by blast
  then show ?thesis
    by (auto simp: generateWithTimeout_def callGeminiAPI_def split: client_outcome.splits if_splits)
qed

lemma sort_activities_fields [simp]:
  "day (sort_activities s) = day s"
  "activities (sort_activities s) = sort_key time (activities s)"
  by (simp_all add: sort_activities_def)

lemma accepted_schedules:
  assumes "build_itinerary e n dest dur parsed = Inr it"
  shows "int (length (dailySchedules it)) = dur
         \<and> (\<forall>s \<in> set (dailySchedules it).
               3 \<le> length (activities s) \<and> 1 \<le> day s \<and> sorted (map time (activities s)))"
proof -
  from build_itinerary_Inr [OF assms] obtain v resp where
      r: "ItineraryResponseSchema v = Some resp" "int (length (resp_dailySchedules resp)) = dur"
         "dailySchedules it = map sort_activities (resp_dailySchedules resp)"
    by auto
  have all: "list_all2 (\<lambda>x s. DailyScheduleSchema x = Some s) (response_schedules v)
               (resp_dailySchedules resp)"
    using ItineraryResponseSchema_Some [OF r(1)] by (rule conjunct1)
  have "3 \<le> length (activities s) \<and> 1 \<le> day s \<and> sorted (map time (activities s))"
    if "s \<in> set (dailySchedules it)" for s
  proof -
    from that r(3) obtain s0 where s0: "s0 \<in> set (resp_dailySchedules resp)" "s = sort_activities s0"
      by auto
    from list_all2_in_set2 [OF all s0(1)] obtain x where "DailyScheduleSchema x = Some s0"
      by auto
    from DailyScheduleSchema_Some [OF this] have "3 \<le> length (activities s0)" "0 < day s0"
      by simp_all
    with s0(2) show ?thesis by simp
  qed
  with r(2,3) show ?thesis by simp
qed

lemma with_id_fields [simp]:
  "category (with_id i r) = category r"
  "rec_name (with_id i r) = rec_name r"
  "rec_description (with_id i r) = rec_description r"
  "rec_location (with_id i r) = rec_location r"
  "rec_id (with_id i r) = i"
  by (cases r; simp add: with_id_def RecommendationData.extend_def)+

lemma same_recommendation_with_id [simp]:
  "same_recommendation v (with_id i r) = same_recommendation v r"
  by (simp add: same_recommendation_def)

lemma recommendations_with_ids:
  assumes "list_all2 (\<lambda>x r. RecommendationSchema x = Some r) rvs rs"
  shows "list_all2 same_recommendation rvs (map (\<lambda>(k, r). with_id (g k) r) (enumerate 0 rs))"
    and "map rec_id (map (\<lambda>(k, r). with_id (g k) r) (enumerate 0 rs)) = map g [0..<length rs]"
proof -
  from assms have len: "length rvs = length rs"
    by (rule list_all2_lengthD)
  have "same_recommendation (rvs ! i) (map (\<lambda>(k, r). with_id (g k) r) (enumerate 0 rs) ! i)"
    if "i < length rs" for i
  proof -
    from assms that len have "RecommendationSchema (rvs ! i) = Some (rs ! i)"
      by (simp add: list_all2_conv_all_nth)
    then have "same_recommendation (rvs ! i) (rs ! i)"
      by (rule RecommendationSchema_Some)
    with that show ?thesis
      by (simp add: nth_enumerate_eq)
  qed
  with len show "list_all2 same_recommendation rvs (map (\<lambda>(k, r). with_id (g k) r) (enumerate 0 rs))"
    by (simp add: list_all2_conv_all_nth)
  show "map rec_id (map (\<lambda>(k, r). with_id (g k) r) (enumerate 0 rs)) = map g [0..<length rs]"
    by (rule nth_equalityI) (simp_all add: nth_enumerate_eq)
qed

lemma schedule_passes_through:
  assumes "DailyScheduleSchema sv = Some s0"
  shows "json_field ''day'' sv = Some (JNum (of_int (day (sort_activities s0))))
         \<and> (\<exists>acts. list_all2 same_activity (schedule_activities sv) acts
               \<and> activities (sort_activities s0) = sort_key time acts
               \<and> mset (activities (sort_activities s0)) = mset acts)"
proof -
  from DailyScheduleSchema_Some [OF assms]
  have d: "json_field ''day'' sv = Some (JNum (of_int (day s0)))"
    and a: "list_all2 (\<lambda>x a. ActivitySchema x = Some a) (schedule_activities sv) (activities s0)"
    by simp_all
  have "list_all2 same_activity (schedule_activities sv) (activities s0)"
    using a
  proof (rule list_all2_mono)
    fix x a assume "ActivitySchema x = Some a"
    from ActivitySchema_Some [OF this] show "same_activity x a" ..
  qed
  with d show ?thesis
    by (intro conjI exI [of _ "activities s0"]) simp_all
qed

lemma response_passes_through:
  assumes "build_itinerary e n dest dur (Inr v) = Inr it"
  shows "list_all2 (\<lambda>sv s. json_field ''day'' sv = Some (JNum (of_int (day s)))
                     \<and> (\<exists>acts. list_all2 same_activity (schedule_activities sv) acts
                           \<and> activities s = sort_key time acts
                           \<and> mset (activities s) = mset acts))
           (response_schedules v) (dailySchedules it)"
    and "list_all2 same_recommendation (response_recommendations v) (recommendations it)"
    and "map rec_id (recommendations it) = map (\<lambda>k. generateId e n (Suc k)) [0..<length (recommendations it)]"
    and "destination it = dest" and "duration it = dur"
    and "itinerary_id it = generateId e n 0" and "generatedAt it = now e n"
proof -
  from build_itinerary_Inr [OF assms] obtain resp where
      r: "ItineraryResponseSchema v = Some resp"
      and it: "it = \<lparr>itinerary_id = generateId e n 0, destination = dest, duration = dur,
                    dailySchedules = map sort_activities (resp_dailySchedules resp),
                    recommendations =
                      map (\<lambda>(k, r). with_id (generateId e n (Suc k)) r)
                        (enumerate 0 (resp_recommendations resp)),
                    generatedAt = now e n\<rparr>"
    by auto
  from ItineraryResponseSchema_Some [OF r]
  have ds: "list_all2 (\<lambda>x s. DailyScheduleSchema x = Some s) (response_schedules v)
              (resp_dailySchedules resp)"
    and rs: "list_all2 (\<lambda>x r. RecommendationSchema x = Some r) (response_recommendations v)
              (resp_recommendations resp)"
    by simp_all
  have "list_all2 (\<lambda>sv s0. json_field ''day'' sv = Some (JNum (of_int (day (sort_activities s0))))
                     \<and> (\<exists>acts. list_all2 same_activity (schedule_activities sv) acts
                           \<and> activities (sort_activities s0) = sort_key time acts
                           \<and> mset (activities (sort_activities s0)) = mset acts))
           (response_schedules v) (resp_dailySchedules resp)"
    using ds
  proof (rule list_all2_mono)
    fix sv s0 assume "DailyScheduleSchema sv = Some s0"
    then show "json_field ''day'' sv = Some (JNum (of_int (day (sort_activities s0))))
                     \<and> (\<exists>acts. list_all2 same_activity (schedule_activities sv) acts
                           \<and> activities (sort_activities s0) = sort_key time acts
                           \<and> mset (activities (sort_activities s0)) = mset acts)"
      by (rule schedule_passes_through)
  qed
  then show "list_all2 (\<lambda>sv s. json_field ''day'' sv = Some (JNum (of_int (day s)))
                     \<and> (\<exists>acts. list_all2 same_activity (schedule_activities sv) acts
                           \<and> activities s = sort_key time acts
                           \<and> mset (activities s) = mset acts))
           (response_schedules v) (dailySchedules it)"
    by (simp add: it list_all2_map2)
  from recommendations_with_ids [OF rs, of "\<lambda>k. generateId e n (Suc k)"]
  show "list_all2 same_recommendation (response_recommendations v) (recommendations it)"
    and "map rec_id (recommendations it) = map (\<lambda>k. generateId e n (Suc k)) [0..<length (recommendations it)]"
    by (simp_all add: it)
  show "destination it = dest" and "duration it = dur"
    and "itinerary_id it = generateId e n 0" and "generatedAt it = now e n"
    by (simp_all add: it)
qed

lemma sorted_from_response:
  assumes "build_itinerary e n dest dur (Inr v) = Inr it"
  shows "list_all2 (\<lambda>sv s. \<exists>acts. list_all2 same_activity (schedule_activities sv) acts
                       \<and> mset (activities s) = mset acts \<and> sorted (map time (activities s)))
           (response_schedules v) (dailySchedules it)"
  using response_passes_through(1) [OF assms]
proof (rule list_all2_mono)
  fix sv s
  assume "json_field ''day'' sv = Some (JNum (of_int (day s)))
            \<and> (\<exists>acts. list_all2 same_activity (schedule_activities sv) acts
                  \<and> activities s = sort_key time acts
                  \<and> mset (activities s) = mset acts)"
  then obtain acts where a: "list_all2 same_activity (schedule_activities sv) acts"
      "activities s = sort_key time acts" "mset (activities s) = mset acts"
    by blast
  from a(2) have "sorted (map time (activities s))"
    by simp
  with a(1,3) show "\<exists>acts. list_all2 same_activity (schedule_activities sv) acts
                       \<and> mset (activities s) = mset acts \<and> sorted (map time (activities s))"
    by blast
qed

lemma try_models_result_of:
  assumes "try_models cfg e dest dur models st = (Some it, st')"
  shows "\<exists>n model. model \<in> set models \<and> generateWithTimeout e n model dest dur = Inr it"
  using assms
proof (induction models arbitrary: st)
  case Nil
  then show ?case by simp
next
  case (Cons model models)
  obtain r st1 where a: "attempts cfg e dest dur model 1 st = (r, st1)"
    by (cases "attempts cfg e dest dur model 1 st")
  show ?case
  proof (cases r)
    case None
    with a Cons.prems have "try_models cfg e dest dur models st1 = (Some it, st')"
      by simp
    from Cons.IH [OF this] show ?thesis by auto
  next
    case (Some result)
    with a Cons.prems have "attempts cfg e dest dur model 1 st = (Some it, st1)"
      by simp
    then have "\<exists>n. generateWithTimeout e n model dest dur = Inr it"
      by (rule attempts_result)
    then show ?thesis by auto
  qed
qed

lemma generate_with_response:
  assumes "generate_with cfg models e input = (Inr it, tr)"
  shows "\<exists>n model raw v. model \<in> set models \<and> client e n model = Responds raw
           \<and> parseAIResponse (JSON_parse e) raw = Inr v
           \<and> build_itinerary e n (input_destination input) (input_duration input) (Inr v) = Inr it"
proof -
  let ?d = "input_destination input" and ?n = "input_duration input"
  from assms have valid: "trim ?d \<noteq> []" "1 \<le> ?n"
    by (auto simp: generate_with_def split: if_splits)
  obtain r st where t: "try_models cfg e ?d ?n models initial_state = (r, st)"
    by (cases "try_models cfg e ?d ?n models initial_state")
  with assms valid have "r = Some it"
    by (cases r) (simp_all add: generate_with_valid)
  with t obtain n model where m: "model \<in> set models"
      and g: "generateWithTimeout e n model ?d ?n = Inr it"
    using try_models_result_of by blast
  from g obtain raw where raw: "client e n model = Responds raw"
      and b: "build_itinerary e n ?d ?n (parseAIResponse (JSON_parse e) raw) = Inr it"
    by (auto simp: generateWithTimeout_def callGeminiAPI_def split: client_outcome.splits if_splits)
  from build_itinerary_Inr [OF b] obtain v where "parseAIResponse (JSON_parse e) raw = Inr v"
    by auto
  with m raw b show ?thesis
    by auto
qed

subsection \<open>The sample response with another day number or another time\<close>

lemma sample_response_accepted_any:
  assumes "0 < d" and "time_regex t"
  shows "ItineraryResponseSchema (sample_response (of_int d) t) =
     Some \<lparr>resp_dailySchedules =
             [\<lparr>day = d,
               activities =
                 [\<lparr>time = t, name = ''x'', location = ''b'', description = ''c''\<rparr>,
                  \<lparr>time = ''09:00'', name = ''y'', location = ''b'', description = ''c''\<rparr>,
                  \<lparr>time = ''12:00'', name = ''z'', location = ''b'', description = ''c''\<rparr>]\<rparr>],
           resp_recommendations =
             [\<lparr>category = Place, rec_name = ''p'', rec_description = ''q'', rec_location = None\<rparr>]\<rparr>"
proof -
  have t9: "time_regex ''09:00''" and t12: "time_regex ''12:00''"
    by (simp_all add: time_regex_def is_digit_def)
  have acts: "z_min 3 (z_array ActivitySchema
                (JArr [sample_activity t ''x'', sample_activity ''09:00'' ''y'',
                       sample_activity ''12:00'' ''z''])) =
              Some [\<lparr>time = t, name = ''x'', location = ''b'', description = ''c''\<rparr>,
                  \<lparr>time = ''09:00'', name = ''y'', location = ''b'', description = ''c''\<rparr>,
                  \<lparr>time = ''12:00'', name = ''z'', location = ''b'', description = ''c''\<rparr>]"
    using assms(2) t9 t12
    by (simp add: sample_activity_def ActivitySchema_def required_def z_array_def z_min_def)
  have d: "z_int_positive (JNum (of_int d)) = Some d"
    using assms(1) by simp
  have day: "DailyScheduleSchema (sample_day (of_int d) t) =
      Some \<lparr>day = d,
            activities =
              [\<lparr>time = t, name = ''x'', location = ''b'', description = ''c''\<rparr>,
               \<lparr>time = ''09:00'', name = ''y'', location = ''b'', description = ''c''\<rparr>,
               \<lparr>time = ''12:00'', name = ''z'', location = ''b'', description = ''c''\<rparr>]\<rparr>"
    by (simp add: sample_day_def DailyScheduleSchema_def required_def acts d
          del: z_int_positive.simps)
  show ?thesis
    by (simp add: sample_response_def ItineraryResponseSchema_def RecommendationSchema_def
          required_def optional_def z_array_def day)
qed

lemma build_sample_any:
  assumes "0 < d" and "time_regex t" and "''12:00'' < t"
  shows "build_itinerary e n dest 1 (Inr (sample_response (of_int d) t)) =
     Inr \<lparr>itinerary_id = generateId e n 0, destination = dest, duration = 1,
          dailySchedules =
            [\<lparr>day = d,
              activities =
                [\<lparr>time = ''09:00'', name = ''y'', location = ''b'', description = ''c''\<rparr>,
                 \<lparr>time = ''12:00'', name = ''z'', location = ''b'', description = ''c''\<rparr>,
                 \<lparr>time = t, name = ''x'', location = ''b'', description = ''c''\<rparr>]\<rparr>],
          recommendations =
            [\<lparr>category = Place, rec_name = ''p'', rec_description = ''q'', rec_location = None,
              rec_id = generateId e n 1\<rparr>],
          generatedAt = now e n\<rparr>"
proof -
  have "''09:00'' < ''12:00''" by simp
  then have "''09:00'' < t"
    using assms(3) by (rule less_trans)
  with assms(3) have "\<not> t \<le> ''09:00''" "\<not> t \<le> ''12:00''"
    by (simp_all add: not_le)
  then show ?thesis
    by (simp add: build_itinerary_def sample_response_accepted_any [OF assms(1,2)]
          sort_activities_def with_id_def RecommendationData.extend_def enumerate_eq_zip)
qed

lemma time_regex_iff:
  "time_regex s \<longleftrightarrow>
     (\<exists>h1 h2 m1 m2. s = [h1, h2, CHR '':'', m1, m2]
        \<and> is_digit h1 \<and> is_digit h2 \<and> is_digit m1 \<and> is_digit m2)"
proof
  assume a: "time_regex s"
  then have "length s = 5" by (simp add: time_regex_def)
  then obtain h1 h2 c m1 m2 where s: "s = [h1, h2, c, m1, m2]"
    by (auto simp: length_Suc_conv eval_nat_numeral)
  with a show "\<exists>h1 h2 m1 m2. s = [h1, h2, CHR '':'', m1, m2]
        \<and> is_digit h1 \<and> is_digit h2 \<and> is_digit m1 \<and> is_digit m2"
    by (simp add: time_regex_def)
next
  assume "\<exists>h1 h2 m1 m2. s = [h1, h2, CHR '':'', m1, m2]
        \<and> is_digit h1 \<and> is_digit h2 \<and> is_digit m1 \<and> is_digit m2"
  then show "time_regex s"
    by (auto simp: time_regex_def)
qed

lemma accepted_activity_times:
  assumes "ItineraryResponseSchema v = Some resp"
    and "sv \<in> set (response_schedules v)" and "av \<in> set (schedule_activities sv)"
  shows "\<exists>t. json_field ''time'' av = Some (JStr t) \<and> time_regex t"
proof -
  have all: "list_all2 (\<lambda>x s. DailyScheduleSchema x = Some s) (response_schedules v)
               (resp_dailySchedules resp)"
    using ItineraryResponseSchema_Some [OF assms(1)] by (rule conjunct1)
  from list_all2_in_set1 [OF all assms(2)] obtain s where s: "DailyScheduleSchema sv = Some s"
    by auto
  have acts: "list_all2 (\<lambda>x a. ActivitySchema x = Some a) (schedule_activities sv) (activities s)"
    using DailyScheduleSchema_Some [OF s] by simp
  from list_all2_in_set1 [OF acts assms(3)] obtain a where a: "ActivitySchema av = Some a"
    by auto
  from ActivitySchema_Some [OF a] show ?thesis
    by (auto simp: same_activity_def)
qed

subsection \<open>One schedule per requested day\<close>






subsection \<open>The time of an activity\<close>

text \<open>
  C6, as stated, fails on the ranges: the response whose first activity is at \<open>99:99\<close> is
  accepted, and the result lists that activity last.
\<close>

theorem time_ranges_are_not_checked:
  "\<not> isl (build_itinerary (sample_env unauthorized) 0 ''Paris'' 1 (Inr (sample_response 1 ''99:99'')))
   \<and> map time (activities (hd (dailySchedules
        (projr (build_itinerary (sample_env unauthorized) 0 ''Paris'' 1
                  (Inr (sample_response 1 ''99:99''))))))) = [''09:00'', ''12:00'', ''99:99'']"
proof -
  have "time_regex ''99:99''" "''12:00'' < ''99:99''"
    by (simp_all add: time_regex_def is_digit_def)
  from build_sample_any [OF _ this, of 1 "sample_env unauthorized" 0 "''Paris''"]
  show ?thesis by simp
qed

text \<open>
  C6, amended. A response is accepted only if the time of every activity of every
  schedule is a string of exactly two decimal digits, a colon and two decimal digits; a
  response with an activity whose time is not of that form is rejected with Zod's error.
\<close>

theorem accepted_times_match_the_pattern:
  "(build_itinerary e n dest dur (Inr v) = Inr it \<longrightarrow>
      (\<forall>sv \<in> set (response_schedules v). \<forall>av \<in> set (schedule_activities sv).
          \<exists>h1 h2 m1 m2. json_field ''time'' av = Some (JStr [h1, h2, CHR '':'', m1, m2])
            \<and> is_digit h1 \<and> is_digit h2 \<and> is_digit m1 \<and> is_digit m2))
   \<and> ((\<exists>sv \<in> set (response_schedules v). \<exists>av \<in> set (schedule_activities sv).
          \<forall>h1 h2 m1 m2. is_digit h1 \<and> is_digit h2 \<and> is_digit m1 \<and> is_digit m2 \<longrightarrow>
             json_field ''time'' av \<noteq> Some (JStr [h1, h2, CHR '':'', m1, m2])) \<longrightarrow>
        build_itinerary e n dest dur (Inr v) = Inl (ZodError (zod_message e v)))"
proof -
  have good: "\<exists>h1 h2 m1 m2. json_field ''time'' av = Some (JStr [h1, h2, CHR '':'', m1, m2])
            \<and> is_digit h1 \<and> is_digit h2 \<and> is_digit m1 \<and> is_digit m2"
    if "ItineraryResponseSchema v = Some resp" "sv \<in> set (response_schedules v)"
       "av \<in> set (schedule_activities sv)" for resp sv av
  proof -
    from accepted_activity_times [OF that] obtain t where
      t: "json_field ''time'' av = Some (JStr t)" "time_regex t"
      by auto
    from t(2) obtain h1 h2 m1 m2 where "t = [h1, h2, CHR '':'', m1, m2]"
        "is_digit h1" "is_digit h2" "is_digit m1" "is_digit m2"
      unfolding time_regex_iff by auto
    with t(1) show ?thesis by auto
  qed
  show ?thesis
  proof (intro conjI impI)
    assume "build_itinerary e n dest dur (Inr v) = Inr it"
    from build_itinerary_Inr [OF this] obtain resp where "ItineraryResponseSchema v = Some resp"
      by auto
    from good [OF this]
    show "\<forall>sv \<in> set (response_schedules v). \<forall>av \<in> set (schedule_activities sv).
          \<exists>h1 h2 m1 m2. json_field ''time'' av = Some (JStr [h1, h2, CHR '':'', m1, m2])
            \<and> is_digit h1 \<and> is_digit h2 \<and> is_digit m1 \<and> is_digit m2"
      by blast
  next
    assume bad: "\<exists>sv \<in> set (response_schedules v). \<exists>av \<in> set (schedule_activities sv).
          \<forall>h1 h2 m1 m2. is_digit h1 \<and> is_digit h2 \<and> is_digit m1 \<and> is_digit m2 \<longrightarrow>
             json_field ''time'' av \<noteq> Some (JStr [h1, h2, CHR '':'', m1, m2])"
    have "ItineraryResponseSchema v = None"
    proof (rule ccontr)
      assume "ItineraryResponseSchema v \<noteq> None"
      then obtain resp where "ItineraryResponseSchema v = Some resp"
        by auto
      from good [OF this] bad show False
        by blast
    qed
    then show "build_itinerary e n dest dur (Inr v) = Inl (ZodError (zod_message e v))"
      by (simp add: build_itinerary_def)
  qed
qed

lemma sample_response_parts:
  "response_schedules (sample_response d t) = [sample_day d t]"
  "schedule_activities (sample_day d t) =
     [sample_activity t ''x'', sample_activity ''09:00'' ''y'', sample_activity ''12:00'' ''z'']"
  "json_field ''time'' (sample_activity t n) = Some (JStr t)"
  by (simp_all add: response_schedules_def schedule_activities_def json_items_def json_field_def
        sample_response_def sample_day_def sample_activity_def)

theorem accepted_times_match_the_pattern_witness:
  "build_itinerary (sample_env unauthorized) 0 ''Paris'' 1 (Inr (sample_response 1 ''14:00''))
     = Inr (sample_itinerary (sample_env unauthorized) 0)
   \<and> list_all (\<lambda>sv. list_all (\<lambda>av. \<exists>h1 h2 m1 m2.
          json_field ''time'' av = Some (JStr [h1, h2, CHR '':'', m1, m2])
            \<and> is_digit h1 \<and> is_digit h2 \<and> is_digit m1 \<and> is_digit m2) (schedule_activities sv))
        (response_schedules (sample_response 1 ''14:00''))
   \<and> json_field ''time'' (sample_activity ''9:00'' ''x'') = Some (JStr ''9:00'')
   \<and> build_itinerary (sample_env unauthorized) 0 ''Paris'' 1 (Inr (sample_response 1 ''9:00''))
       = Inl (ZodError ''Required'')"
proof -
  let ?e = "sample_env unauthorized"
  note t = accepted_times_match_the_pattern
  have b: "build_itinerary ?e 0 ''Paris'' 1 (Inr (sample_response 1 ''14:00'')) = Inr (sample_itinerary ?e 0)"
    by (rule build_sample)
  from conjunct1 [OF t, of ?e 0 "''Paris''" 1 "sample_response 1 ''14:00''" "sample_itinerary ?e 0"] b
  have p1: "list_all (\<lambda>sv. list_all (\<lambda>av. \<exists>h1 h2 m1 m2.
          json_field ''time'' av = Some (JStr [h1, h2, CHR '':'', m1, m2])
            \<and> is_digit h1 \<and> is_digit h2 \<and> is_digit m1 \<and> is_digit m2) (schedule_activities sv))
        (response_schedules (sample_response 1 ''14:00''))"
    unfolding list_all_iff by blast
  have f: "json_field ''time'' (sample_activity ''9:00'' ''x'') = Some (JStr ''9:00'')"
    by (rule sample_response_parts(3))
  have bad: "\<exists>sv \<in> set (response_schedules (sample_response 1 ''9:00'')).
        \<exists>av \<in> set (schedule_activities sv).
          \<forall>h1 h2 m1 m2. is_digit h1 \<and> is_digit h2 \<and> is_digit m1 \<and> is_digit m2 \<longrightarrow>
             json_field ''time'' av \<noteq> Some (JStr [h1, h2, CHR '':'', m1, m2])"
    by (simp add: sample_response_parts)
  from conjunct2 [OF t, of "sample_response 1 ''9:00''" ?e 0 "''Paris''" 1] bad
  have "build_itinerary ?e 0 ''Paris'' 1 (Inr (sample_response 1 ''9:00''))
       = Inl (ZodError (zod_message ?e (sample_response 1 ''9:00'')))"
    by blast
  then have p2: "build_itinerary ?e 0 ''Paris'' 1 (Inr (sample_response 1 ''9:00''))
       = Inl (ZodError ''Required'')"
    by (simp add: sample_env_def)
  from b p1 f p2 show ?thesis by blast
qed

subsection \<open>Activities in order of time\<close>

text \<open>
  C7. In every result, the activities of each day are in ascending order of their time
  strings, compared as strings, in whatever order the response listed them: each day of
  the result holds the activities of the same day of the response, every one of them as
  often as the response has it, and holds them in that order. The result of a run is made
  so from the response of one of the models of the list.
\<close>

theorem activities_sorted_by_time:
  "(build_itinerary e n dest dur parsed = Inr it \<longrightarrow>
      (\<forall>s \<in> set (dailySchedules it). sorted (map time (activities s))))
   \<and> (generate_with cfg models e input = (Inr result, tr) \<longrightarrow>
      (\<forall>s \<in> set (dailySchedules result). sorted (map time (activities s))))
   \<and> (build_itinerary e n dest dur (Inr v) = Inr it \<longrightarrow>
      list_all2 (\<lambda>sv s. \<exists>acts. list_all2 same_activity (schedule_activities sv) acts
                         \<and> mset (activities s) = mset acts \<and> sorted (map time (activities s)))
        (response_schedules v) (dailySchedules it))
   \<and> (generate_with cfg models e input = (Inr result, tr) \<longrightarrow>
      (\<exists>k model raw w. model \<in> set models \<and> client e k model = Responds raw
          \<and> parseAIResponse (JSON_parse e) raw = Inr w
          \<and> list_all2 (\<lambda>sv s. \<exists>acts. list_all2 same_activity (schedule_activities sv) acts
                             \<and> mset (activities s) = mset acts
                             \<and> sorted (map time (activities s)))
                (response_schedules w) (dailySchedules result)))"
proof (intro conjI impI)
  assume "build_itinerary e n dest dur parsed = Inr it"
  from accepted_schedules [OF this]
  show "\<forall>s \<in> set (dailySchedules it). sorted (map time (activities s))"
    by simp
next
  assume "generate_with cfg models e input = (Inr result, tr)"
  from generate_with_result [OF this] obtain k p where
    "build_itinerary e k (input_destination input) (input_duration input) p = Inr result"
    by auto
  from accepted_schedules [OF this]
  show "\<forall>s \<in> set (dailySchedules result). sorted (map time (activities s))"
    by simp
next
  assume "build_itinerary e n dest dur (Inr v) = Inr it"
  then show "list_all2 (\<lambda>sv s. \<exists>acts. list_all2 same_activity (schedule_activities sv) acts
                         \<and> mset (activities s) = mset acts \<and> sorted (map time (activities s)))
        (response_schedules v) (dailySchedules it)"
    by (rule sorted_from_response)
next
  assume "generate_with cfg models e input = (Inr result, tr)"
  from generate_with_response [OF this] obtain k model raw w where
      m: "model \<in> set models" "client e k model = Responds raw"
         "parseAIResponse (JSON_parse e) raw = Inr w"
      and b: "build_itinerary e k (input_destination input) (input_duration input) (Inr w) = Inr result"
    by blast
  from sorted_from_response [OF b] m
  show "\<exists>k model raw w. model \<in> set models \<and> client e k model = Responds raw
          \<and> parseAIResponse (JSON_parse e) raw = Inr w
          \<and> list_all2 (\<lambda>sv s. \<exists>acts. list_all2 same_activity (schedule_activities sv) acts
                             \<and> mset (activities s) = mset acts
                             \<and> sorted (map time (activities s)))
                (response_schedules w) (dailySchedules result)"
    by blast
qed

theorem activities_sorted_by_time_witness:
  "map (map (json_field ''time'') \<circ> schedule_activities)
       (response_schedules (sample_response 1 ''14:00''))
     = [[Some (JStr ''14:00''), Some (JStr ''09:00''), Some (JStr ''12:00'')]]
   \<and> build_itinerary (sample_env unauthorized) 0 ''Paris'' 1 (Inr (sample_response 1 ''14:00''))
       = Inr (sample_itinerary (sample_env unauthorized) 0)
   \<and> map (map time \<circ> activities) (dailySchedules (sample_itinerary (sample_env unauthorized) 0))
       = [[''09:00'', ''12:00'', ''14:00'']]
   \<and> list_all (\<lambda>s. sorted (map time (activities s)))
        (dailySchedules (sample_itinerary (sample_env unauthorized) 0))
   \<and> list_all2 (\<lambda>sv s. \<exists>acts. list_all2 same_activity (schedule_activities sv) acts
                         \<and> mset (activities s) = mset acts \<and> sorted (map time (activities s)))
        (response_schedules (sample_response 1 ''14:00''))
        (dailySchedules (sample_itinerary (sample_env unauthorized) 0))
   \<and> generate_with ItineraryGenerator FALLBACK_MODELS (sample_env unauthorized_once) (paris 1) =
       (Inr (sample_itinerary (sample_env unauthorized_once) 1),
        [Invoke ''gemini-2.5-flash'', Invoke ''gemini-2.5-pro''])
   \<and> list_all (\<lambda>s. sorted (map time (activities s)))
        (dailySchedules (sample_itinerary (sample_env unauthorized_once) 1))
   \<and> (\<exists>k model raw w. model \<in> set FALLBACK_MODELS
          \<and> client (sample_env unauthorized_once) k model = Responds raw
          \<and> parseAIResponse (JSON_parse (sample_env unauthorized_once)) raw = Inr w
          \<and> list_all2 (\<lambda>sv s. \<exists>acts. list_all2 same_activity (schedule_activities sv) acts
                             \<and> mset (activities s) = mset acts
                             \<and> sorted (map time (activities s)))
                (response_schedules w)
                (dailySchedules (sample_itinerary (sample_env unauthorized_once) 1)))"
proof -
  let ?e = "sample_env unauthorized" and ?e' = "sample_env unauthorized_once"
  note t = activities_sorted_by_time
  have b: "build_itinerary ?e 0 ''Paris'' 1 (Inr (sample_response 1 ''14:00'')) = Inr (sample_itinerary ?e 0)"
    by (rule build_sample)
  from t [where e = ?e and n = 0 and dest = "''Paris''" and dur = 1
            and parsed = "Inr (sample_response 1 ''14:00'')" and it = "sample_itinerary ?e 0"
            and v = "sample_response 1 ''14:00''"] b
  have "\<forall>s \<in> set (dailySchedules (sample_itinerary ?e 0)). sorted (map time (activities s))"
    and r: "list_all2 (\<lambda>sv s. \<exists>acts. list_all2 same_activity (schedule_activities sv) acts
                         \<and> mset (activities s) = mset acts \<and> sorted (map time (activities s)))
        (response_schedules (sample_response 1 ''14:00'')) (dailySchedules (sample_itinerary ?e 0))"
    by blast+
  then have p: "list_all (\<lambda>s. sorted (map time (activities s))) (dailySchedules (sample_itinerary ?e 0))"
    unfolding list_all_iff by blast
  note run = unauthorized_once_run
  from t [where cfg = ItineraryGenerator and models = FALLBACK_MODELS and e = ?e'
            and input = "paris 1" and result = "sample_itinerary ?e' 1"
            and tr = "[Invoke ''gemini-2.5-flash'', Invoke ''gemini-2.5-pro'']"] run
  have "\<forall>s \<in> set (dailySchedules (sample_itinerary ?e' 1)). sorted (map time (activities s))"
    and w: "\<exists>k model raw w. model \<in> set FALLBACK_MODELS
          \<and> client ?e' k model = Responds raw
          \<and> parseAIResponse (JSON_parse ?e') raw = Inr w
          \<and> list_all2 (\<lambda>sv s. \<exists>acts. list_all2 same_activity (schedule_activities sv) acts
                             \<and> mset (activities s) = mset acts
                             \<and> sorted (map time (activities s)))
                (response_schedules w) (dailySchedules (sample_itinerary ?e' 1))"
    by blast+
  then have q: "list_all (\<lambda>s. sorted (map time (activities s))) (dailySchedules (sample_itinerary ?e' 1))"
    unfolding list_all_iff by blast
  have i: "map (map (json_field ''time'') \<circ> schedule_activities)
       (response_schedules (sample_response 1 ''14:00''))
     = [[Some (JStr ''14:00''), Some (JStr ''09:00''), Some (JStr ''12:00'')]]"
    by (simp add: sample_response_parts)
  have o: "map (map time \<circ> activities) (dailySchedules (sample_itinerary ?e 0))
       = [[''09:00'', ''12:00'', ''14:00'']]"
    by (simp add: sample_itinerary_def)
  from i b o p r run q w show ?thesis by (intro conjI)
qed

subsection \<open>What passes through\<close>

lemma extra_keys_response_accepted:
  "ItineraryResponseSchema extra_keys_response = ItineraryResponseSchema (sample_response 1 ''14:00'')"
proof -
  have t: "time_regex ''14:00''" "time_regex ''09:00''" "time_regex ''12:00''"
    by (simp_all add: time_regex_def is_digit_def)
  have acts: "z_min 3 (z_array ActivitySchema
                (JArr [JObj [(''time'', JStr ''14:00''), (''name'', JStr ''x''),
                             (''location'', JStr ''b''), (''description'', JStr ''c''),
                             (''icon'', JStr ''museum'')],
                       sample_activity ''09:00'' ''y'', sample_activity ''12:00'' ''z''])) =
              Some [\<lparr>time = ''14:00'', name = ''x'', location = ''b'', description = ''c''\<rparr>,
                  \<lparr>time = ''09:00'', name = ''y'', location = ''b'', description = ''c''\<rparr>,
                  \<lparr>time = ''12:00'', name = ''z'', location = ''b'', description = ''c''\<rparr>]"
    using t by (simp add: sample_activity_def ActivitySchema_def required_def z_array_def z_min_def)
  have day: "DailyScheduleSchema
      (JObj [(''day'', JNum 1),
             (''activities'',
                JArr [JObj [(''time'', JStr ''14:00''), (''name'', JStr ''x''),
                            (''location'', JStr ''b''), (''description'', JStr ''c''),
                            (''icon'', JStr ''museum'')],
                      sample_activity ''09:00'' ''y'', sample_activity ''12:00'' ''z''])]) =
      Some \<lparr>day = 1,
            activities =
              [\<lparr>time = ''14:00'', name = ''x'', location = ''b'', description = ''c''\<rparr>,
               \<lparr>time = ''09:00'', name = ''y'', location = ''b'', description = ''c''\<rparr>,
               \<lparr>time = ''12:00'', name = ''z'', location = ''b'', description = ''c''\<rparr>]\<rparr>"
    by (simp add: DailyScheduleSchema_def required_def acts)
  have "ItineraryResponseSchema extra_keys_response =
     Some \<lparr>resp_dailySchedules =
             [\<lparr>day = 1,
               activities =
                 [\<lparr>time = ''14:00'', name = ''x'', location = ''b'', description = ''c''\<rparr>,
                  \<lparr>time = ''09:00'', name = ''y'', location = ''b'', description = ''c''\<rparr>,
                  \<lparr>time = ''12:00'', name = ''z'', location = ''b'', description = ''c''\<rparr>]\<rparr>],
           resp_recommendations =
             [\<lparr>category = Place, rec_name = ''p'', rec_description = ''q'', rec_location = None\<rparr>]\<rparr>"
    by (simp add: extra_keys_response_def ItineraryResponseSchema_def RecommendationSchema_def
          required_def optional_def z_array_def day)
  then show ?thesis
    by (simp add: sample_response_accepted)
qed

lemma build_extra_keys:
  "build_itinerary e n ''Paris'' 1 (Inr extra_keys_response) = Inr (sample_itinerary e n)"
  by (simp add: build_itinerary_def extra_keys_response_accepted sample_response_accepted
        sort_activities_def with_id_def RecommendationData.extend_def sample_itinerary_def
        enumerate_eq_zip)

lemma sample_ids: "generateId (sample_env c) 0 (Suc 0) = ''id-0-1''"
  by (simp add: sample_env_def show_nat.simps digit_char_def char_of_def bit_0)

text \<open>
  C9, as stated, fails on the keys the schemas do not name and on the identifiers: the
  response with an \<open>icon\<close> on an activity and an \<open>id\<close> on the recommendation gives the
  very result of the response without them, whose recommendation has the identifier the
  generator drew.
\<close>

theorem unknown_keys_are_dropped_and_ids_replaced:
  "json_field ''icon'' (hd (schedule_activities (hd (response_schedules extra_keys_response))))
     = Some (JStr ''museum'')
   \<and> json_field ''id'' (hd (response_recommendations extra_keys_response)) = Some (JStr ''r1'')
   \<and> json_field ''icon'' (hd (schedule_activities (hd (response_schedules (sample_response 1 ''14:00'')))))
     = None
   \<and> build_itinerary (sample_env unauthorized) 0 ''Paris'' 1 (Inr extra_keys_response)
     = build_itinerary (sample_env unauthorized) 0 ''Paris'' 1 (Inr (sample_response 1 ''14:00''))
   \<and> build_itinerary (sample_env unauthorized) 0 ''Paris'' 1 (Inr extra_keys_response)
     = Inr (sample_itinerary (sample_env unauthorized) 0)
   \<and> map rec_id (recommendations (sample_itinerary (sample_env unauthorized) 0)) = [''id-0-1'']"
proof -
  let ?e = "sample_env unauthorized"
  have k: "json_field ''icon'' (hd (schedule_activities (hd (response_schedules extra_keys_response))))
     = Some (JStr ''museum'')"
      "json_field ''id'' (hd (response_recommendations extra_keys_response)) = Some (JStr ''r1'')"
    by (simp_all add: extra_keys_response_def response_schedules_def schedule_activities_def
          response_recommendations_def json_items_def json_field_def)
  have n: "json_field ''icon'' (hd (schedule_activities (hd (response_schedules (sample_response 1 ''14:00'')))))
     = None"
    by (simp add: sample_response_parts) (simp add: sample_activity_def json_field_def)
  have res: "build_itinerary ?e 0 ''Paris'' 1 (Inr extra_keys_response) = Inr (sample_itinerary ?e 0)"
    by (rule build_extra_keys)
  then have same: "build_itinerary ?e 0 ''Paris'' 1 (Inr extra_keys_response)
     = build_itinerary ?e 0 ''Paris'' 1 (Inr (sample_response 1 ''14:00''))"
    by (simp only: build_sample)
  have ids: "map rec_id (recommendations (sample_itinerary ?e 0)) = [''id-0-1'']"
    by (simp add: sample_itinerary_def sample_ids)
  from k n same res ids show ?thesis by blast
qed

text \<open>
  C9, amended. The fields the schemas name pass through unchanged: of every schedule the
  day and the activities, the latter as a whole only reordered (the stable sort by time);
  of every activity its time, name, location and description; of every recommendation its
  category, name, description and optional location, in the order of the response. Keys
  the schemas do not name are dropped, every recommendation gets an identifier of the
  generator's, and the itinerary gets the destination and duration of the request, an
  identifier of the generator's and the time of the clock.
\<close>

theorem named_fields_pass_through:
  assumes "build_itinerary e n dest dur (Inr v) = Inr it"
  shows "list_all2 (\<lambda>sv s. json_field ''day'' sv = Some (JNum (of_int (day s)))
                     \<and> (\<exists>acts. list_all2 same_activity (schedule_activities sv) acts
                           \<and> activities s = sort_key time acts
                           \<and> mset (activities s) = mset acts))
           (response_schedules v) (dailySchedules it)
         \<and> list_all2 same_recommendation (response_recommendations v) (recommendations it)
         \<and> map rec_id (recommendations it) =
             map (\<lambda>k. generateId e n (Suc k)) [0..<length (recommendations it)]
         \<and> destination it = dest \<and> duration it = dur
         \<and> itinerary_id it = generateId e n 0 \<and> generatedAt it = now e n"
  using response_passes_through [OF assms] by (intro conjI)

theorem named_fields_pass_through_witness:
  "build_itinerary (sample_env unauthorized) 0 ''Paris'' 1 (Inr extra_keys_response)
     = Inr (sample_itinerary (sample_env unauthorized) 0)
   \<and> list_all2 (\<lambda>sv s. json_field ''day'' sv = Some (JNum (of_int (day s)))
                     \<and> (\<exists>acts. list_all2 same_activity (schedule_activities sv) acts
                           \<and> activities s = sort_key time acts
                           \<and> mset (activities s) = mset acts))
           (response_schedules extra_keys_response)
           (dailySchedules (sample_itinerary (sample_env unauthorized) 0))
   \<and> list_all2 same_recommendation (response_recommendations extra_keys_response)
        (recommendations (sample_itinerary (sample_env unauthorized) 0))
   \<and> destination (sample_itinerary (sample_env unauthorized) 0) = ''Paris''"
proof -
  let ?e = "sample_env unauthorized"
  have res: "build_itinerary ?e 0 ''Paris'' 1 (Inr extra_keys_response) = Inr (sample_itinerary ?e 0)"
    by (rule build_extra_keys)
  from named_fields_pass_through [OF res] res show ?thesis
    by blast
qed

subsection \<open>The response parser\<close>

lemma dropWhile_unchanged: "xs \<noteq> [] \<Longrightarrow> \<not> P (hd xs) \<Longrightarrow> dropWhile P xs = xs"
  by (cases xs) simp_all

lemma strip_trailing:
  assumes "\<forall>c \<in> set ws. P c" and "body \<noteq> []" and "\<not> P (last body)"
  shows "rev (dropWhile P (rev (body @ ws))) = body"
proof -
  have "dropWhile P (rev ws @ rev body) = dropWhile P (rev body)"
    by (rule dropWhile_append2) (use assms(1) in auto)
  then have "dropWhile P (rev (body @ ws)) = dropWhile P (rev body)"
    by simp
  also have "\<dots> = rev body"
    using assms(2,3) by (intro dropWhile_unchanged) (simp_all add: hd_rev)
  finally show ?thesis by simp
qed

lemma strip_leading:
  assumes "\<forall>c \<in> set ws. P c" and "body \<noteq> []" and "\<not> P (hd body)"
  shows "dropWhile P (ws @ body @ rest) = body @ rest"
proof -
  have "dropWhile P (ws @ body @ rest) = dropWhile P (body @ rest)"
    by (rule dropWhile_append2) (use assms(1) in auto)
  also have "\<dots> = body @ rest"
    using assms(2,3) by (intro dropWhile_unchanged) simp_all
  finally show ?thesis .
qed

lemma strip_fence_end_closing:
  assumes "\<forall>c \<in> set ws. is_space c" and "body \<noteq> []" and "\<not> is_space (last body)"
  shows "strip_fence_end (body @ ws @ ''```'') = body"
proof -
  have "suffix ''```'' (body @ ws @ ''```'')"
    by (metis append.assoc suffixI)
  moreover have "take (length (body @ ws @ ''```'') - 3) (body @ ws @ ''```'') = body @ ws"
    by simp
  ultimately show ?thesis
    using strip_trailing [OF assms] by (simp add: strip_fence_end_def)
qed

lemma match_braces_Some_iff:
  "match_braces text = Some m \<longleftrightarrow>
     (\<exists>pre post. text = pre @ m @ post \<and> CHR ''{'' \<notin> set pre \<and> CHR ''}'' \<notin> set post
        \<and> m \<noteq> [] \<and> hd m = CHR ''{'' \<and> last m = CHR ''}'')"
proof
  let ?open = "\<lambda>c. c \<noteq> CHR ''{''" and ?close = "\<lambda>c. c \<noteq> CHR ''}''"
  let ?fo = "dropWhile ?open text"
  assume "match_braces text = Some m"
  then have m: "m = rev (dropWhile ?close (rev ?fo))" and ne: "m \<noteq> []"
    by (auto simp: match_braces_def Let_def split: if_splits)
  let ?pre = "takeWhile ?open text" and ?post = "rev (takeWhile ?close (rev ?fo))"
  have "rev (takeWhile ?close (rev ?fo) @ dropWhile ?close (rev ?fo)) =
          rev (dropWhile ?close (rev ?fo)) @ rev (takeWhile ?close (rev ?fo))"
    by (rule rev_append)
  moreover have "takeWhile ?close (rev ?fo) @ dropWhile ?close (rev ?fo) = rev ?fo"
    by (rule takeWhile_dropWhile_id)
  ultimately have "rev (rev ?fo) =
          rev (dropWhile ?close (rev ?fo)) @ rev (takeWhile ?close (rev ?fo))"
    by (simp only:)
  then have fo: "?fo = m @ ?post"
    by (simp only: rev_rev_ident m)
  have "text = ?pre @ ?fo" by simp
  with fo have decomp: "text = ?pre @ m @ ?post" by simp
  have pre: "CHR ''{'' \<notin> set ?pre"
    by (auto dest: set_takeWhileD)
  have post: "CHR ''}'' \<notin> set ?post"
    by (auto dest: set_takeWhileD)
  from ne fo have "?fo \<noteq> []"
    by (metis append_is_Nil_conv)
  then have "hd ?fo = CHR ''{''"
    using hd_dropWhile [of ?open "text"] by simp
  with fo ne have hd: "hd m = CHR ''{''"
    by (metis hd_append2)
  from ne m have "dropWhile ?close (rev ?fo) \<noteq> []"
    by (metis rev.simps(1))
  then have "hd (dropWhile ?close (rev ?fo)) = CHR ''}''"
    using hd_dropWhile [of ?close "rev ?fo"] by simp
  with ne m have last: "last m = CHR ''}''"
    by (simp add: last_rev)
  from decomp pre post ne hd last
  show "\<exists>pre post. text = pre @ m @ post \<and> CHR ''{'' \<notin> set pre \<and> CHR ''}'' \<notin> set post
        \<and> m \<noteq> [] \<and> hd m = CHR ''{'' \<and> last m = CHR ''}''"
    by blast
next
  let ?open = "\<lambda>c. c \<noteq> CHR ''{''" and ?close = "\<lambda>c. c \<noteq> CHR ''}''"
  assume "\<exists>pre post. text = pre @ m @ post \<and> CHR ''{'' \<notin> set pre \<and> CHR ''}'' \<notin> set post
        \<and> m \<noteq> [] \<and> hd m = CHR ''{'' \<and> last m = CHR ''}''"
  then obtain pre post where decomp: "text = pre @ m @ post"
      and pre: "CHR ''{'' \<notin> set pre" and post: "CHR ''}'' \<notin> set post"
      and ne: "m \<noteq> []" and hd: "hd m = CHR ''{''" and last: "last m = CHR ''}''"
    by blast
  have "\<forall>c \<in> set pre. ?open c"
    using pre by auto
  then have fo: "dropWhile ?open text = m @ post"
    unfolding decomp using ne hd by (intro strip_leading) simp_all
  have "\<forall>c \<in> set post. ?close c"
    using post by auto
  then have "rev (dropWhile ?close (rev (m @ post))) = m"
    using ne last by (intro strip_trailing) simp_all
  then have r: "rev (dropWhile ?close (rev (dropWhile ?open text))) = m"
    by (simp only: fo)
  show "match_braces text = Some m"
    unfolding match_braces_def Let_def r using ne by simp
qed

lemma trim_unchanged:
  assumes "s \<noteq> []" and "\<not> is_space (hd s)" and "\<not> is_space (last s)"
  shows "trim s = s"
proof -
  have "dropWhile is_space s = s"
    using assms(1,2) by (rule dropWhile_unchanged)
  moreover have "rev (dropWhile is_space (rev (s @ []))) = s"
    using assms(1,3) by (intro strip_trailing) simp_all
  ultimately show ?thesis
    by (simp add: trim_def)
qed

lemma strip_fences_unfenced: "\<not> startsWith s ''```'' \<Longrightarrow> strip_fences s = s"
proof -
  assume a: "\<not> startsWith s ''```''"
  have "\<not> startsWith s ''```json''"
  proof
    assume "startsWith s ''```json''"
    then have "prefix (''```'' @ ''json'') s"
      by (simp add: startsWith_def)
    then have "prefix ''```'' s"
      by (rule append_prefixD)
    with a show False
      by (simp add: startsWith_def)
  qed
  with a show ?thesis
    by (simp add: strip_fences_def)
qed

lemma strip_fences_json:
  assumes "\<forall>c \<in> set ws \<union> set ws'. is_space c" and "body \<noteq> []"
    and "\<not> is_space (hd body)" and "\<not> is_space (last body)"
  shows "strip_fences (''```json'' @ ws @ body @ ws' @ ''```'') = body"
proof -
  have "startsWith (''```json'' @ ws @ body @ ws' @ ''```'') ''```json''"
    unfolding startsWith_def by (rule prefixI) simp
  moreover have "drop 7 (''```json'' @ ws @ body @ ws' @ ''```'') = ws @ body @ ws' @ ''```''"
    by simp
  moreover have "dropWhile is_space (ws @ body @ ws' @ ''```'') = body @ ws' @ ''```''"
    using assms(1-3) by (intro strip_leading) simp_all
  moreover have "strip_fence_end (body @ ws' @ ''```'') = body"
    using assms(1,2,4) by (intro strip_fence_end_closing) simp_all
  ultimately show ?thesis
    by (simp only: strip_fences_def if_True)
qed

lemma strip_fences_plain:
  assumes "\<forall>c \<in> set ws \<union> set ws'. is_space c" and "body \<noteq> []"
    and "\<not> is_space (hd body)" and "\<not> is_space (last body)"
    and "hd (ws @ body) \<noteq> CHR ''j''"
  shows "strip_fences (''```'' @ ws @ body @ ws' @ ''```'') = body"
proof -
  have "startsWith (''```'' @ ws @ body @ ws' @ ''```'') ''```''"
    unfolding startsWith_def by (rule prefixI) simp
  moreover have "\<not> startsWith (''```'' @ ws @ body @ ws' @ ''```'') ''```json''"
  proof
    assume "startsWith (''```'' @ ws @ body @ ws' @ ''```'') ''```json''"
    then have "prefix (''```'' @ ''json'') (''```'' @ (ws @ body) @ ws' @ ''```'')"
      by (simp add: startsWith_def)
    then have "prefix (CHR ''j'' # ''son'') ((ws @ body) @ ws' @ ''```'')"
      by (simp only: same_prefix_prefix)
    then obtain zs where "(ws @ body) @ ws' @ ''```'' = (CHR ''j'' # ''son'') @ zs"
      unfolding prefix_def by blast
    then have "hd ((ws @ body) @ ws' @ ''```'') = CHR ''j''"
      by (simp only: append_Cons list.sel)
    moreover from assms(2) have "ws @ body \<noteq> []"
      by simp
    ultimately have "hd (ws @ body) = CHR ''j''"
      by (metis hd_append2)
    with assms(5) show False
      by contradiction
  qed
  moreover have "drop 3 (''```'' @ ws @ body @ ws' @ ''```'') = ws @ body @ ws' @ ''```''"
    by simp
  moreover have "dropWhile is_space (ws @ body @ ws' @ ''```'') = body @ ws' @ ''```''"
    using assms(1-3) by (intro strip_leading) simp_all
  moreover have "strip_fence_end (body @ ws' @ ''```'') = body"
    using assms(1,2,4) by (intro strip_fence_end_closing) simp_all
  ultimately show ?thesis
    by (simp only: strip_fences_def if_True if_False)
qed

lemma two_objects_plain:
  "trim two_objects = two_objects" "strip_fences two_objects = two_objects"
  "match_braces two_objects = Some two_objects"
  \<open>spec_first_balanced two_objects = Some ''{"a":1}''\<close>
  "sample_JSON_parse two_objects = Inl ''Unexpected token''"
  by (simp_all add: two_objects_def trim_def is_space_def strip_fences_def startsWith_def
        match_braces_def sample_JSON_parse_def sample_text_def)

text \<open>
  C8, as stated, fails at the third step: on a text of two objects, one after the other,
  the code takes everything from the first opening brace to the last closing brace, which
  does not parse, where the first balanced block would have.
\<close>

theorem greedy_match_is_not_the_first_balanced_block:
  \<open>match_braces two_objects = Some ''{"a":1} {"b":2}''
   \<and> spec_first_balanced two_objects = Some ''{"a":1}''
   \<and> parseAIResponse sample_JSON_parse two_objects = Inl (SyntaxError ''Unexpected token'')
   \<and> spec_parseAIResponse sample_JSON_parse two_objects = Inr (JObj [(''a'', JNum 1)])\<close>
proof -
  have \<open>sample_JSON_parse ''{"a":1}'' = Inr (JObj [(''a'', JNum 1)])\<close>
    by (simp add: sample_JSON_parse_def sample_text_def)
  then have "spec_parseAIResponse sample_JSON_parse two_objects = Inr (JObj [(''a'', JNum 1)])"
    by (simp add: spec_parseAIResponse_def two_objects_plain)
  moreover have "parseAIResponse sample_JSON_parse two_objects = Inl (SyntaxError ''Unexpected token'')"
    by (simp add: parseAIResponse_def two_objects_plain)
  moreover have \<open>match_braces two_objects = Some ''{"a":1} {"b":2}''\<close>
    using two_objects_plain(3) by (simp add: two_objects_def)
  ultimately show ?thesis
    using two_objects_plain(4) by blast
qed

text \<open>
  C8, amended. The parser trims the text; if what is left starts with a fence marker
  (with or without \<open>json\<close>), it removes the marker with the white space after it and a
  closing marker at the very end with the white space before it; it parses the rest. When
  that fails, it parses the part of the untrimmed text from the first opening brace to
  the last closing brace, balanced or not. It returns a value exactly when one of the two
  parses succeeds, and fails otherwise: with the second parse's error, or with its own
  error when the text has no such part.
\<close>

theorem parser_steps:
  "(parseAIResponse parse raw = Inr v \<longleftrightarrow>
      parse (strip_fences (trim raw)) = Inr v
      \<or> (isl (parse (strip_fences (trim raw))) \<and> (\<exists>m. match_braces raw = Some m \<and> parse m = Inr v)))
   \<and> (isl (parse (strip_fences (trim raw))) \<and> match_braces raw = Some block \<and> parse block = Inl msg \<longrightarrow>
        parseAIResponse parse raw = Inl (SyntaxError msg))
   \<and> (isl (parse (strip_fences (trim raw))) \<and> match_braces raw = None \<longrightarrow>
        parseAIResponse parse raw = Inl NoValidJson)
   \<and> (match_braces raw = Some block \<longleftrightarrow>
        (\<exists>pre post. raw = pre @ block @ post \<and> CHR ''{'' \<notin> set pre \<and> CHR ''}'' \<notin> set post
           \<and> block \<noteq> [] \<and> hd block = CHR ''{'' \<and> last block = CHR ''}''))
   \<and> (\<not> startsWith s ''```'' \<longrightarrow> strip_fences s = s)
   \<and> ((\<forall>c \<in> set ws \<union> set ws'. is_space c) \<and> body \<noteq> []
         \<and> \<not> is_space (hd body) \<and> \<not> is_space (last body) \<longrightarrow>
        strip_fences (''```json'' @ ws @ body @ ws' @ ''```'') = body)
   \<and> ((\<forall>c \<in> set ws \<union> set ws'. is_space c) \<and> body \<noteq> []
         \<and> \<not> is_space (hd body) \<and> \<not> is_space (last body) \<and> hd (ws @ body) \<noteq> CHR ''j'' \<longrightarrow>
        strip_fences (''```'' @ ws @ body @ ws' @ ''```'') = body)"
proof (intro conjI)
  show "parseAIResponse parse raw = Inr v \<longleftrightarrow>
      parse (strip_fences (trim raw)) = Inr v
      \<or> (isl (parse (strip_fences (trim raw))) \<and> (\<exists>m. match_braces raw = Some m \<and> parse m = Inr v))"
    by (cases "parse (strip_fences (trim raw))"; cases "match_braces raw")
       (auto simp: parseAIResponse_def split: sum.splits)
  show "isl (parse (strip_fences (trim raw))) \<and> match_braces raw = Some block \<and> parse block = Inl msg \<longrightarrow>
        parseAIResponse parse raw = Inl (SyntaxError msg)"
    by (cases "parse (strip_fences (trim raw))") (simp_all add: parseAIResponse_def)
  show "isl (parse (strip_fences (trim raw))) \<and> match_braces raw = None \<longrightarrow>
        parseAIResponse parse raw = Inl NoValidJson"
    by (cases "parse (strip_fences (trim raw))") (simp_all add: parseAIResponse_def)
  show "match_braces raw = Some block \<longleftrightarrow>
        (\<exists>pre post. raw = pre @ block @ post \<and> CHR ''{'' \<notin> set pre \<and> CHR ''}'' \<notin> set post
           \<and> block \<noteq> [] \<and> hd block = CHR ''{'' \<and> last block = CHR ''}'')"
    by (rule match_braces_Some_iff)
  show "\<not> startsWith s ''```'' \<longrightarrow> strip_fences s = s"
    using strip_fences_unfenced by blast
  show "(\<forall>c \<in> set ws \<union> set ws'. is_space c) \<and> body \<noteq> []
         \<and> \<not> is_space (hd body) \<and> \<not> is_space (last body) \<longrightarrow>
        strip_fences (''```json'' @ ws @ body @ ws' @ ''```'') = body"
    using strip_fences_json by blast
  show "(\<forall>c \<in> set ws \<union> set ws'. is_space c) \<and> body \<noteq> []
         \<and> \<not> is_space (hd body) \<and> \<not> is_space (last body) \<and> hd (ws @ body) \<noteq> CHR ''j'' \<longrightarrow>
        strip_fences (''```'' @ ws @ body @ ws' @ ''```'') = body"
    using strip_fences_plain by blast
qed

lemma sample_text_ends:
  "sample_text \<noteq> []" "hd sample_text = CHR ''{''" "last sample_text = CHR ''}''"
  by (simp_all add: sample_text_def)

lemma no_json_plain:
  "trim ''no json'' = ''no json''" "strip_fences ''no json'' = ''no json''"
  "match_braces ''no json'' = None" "sample_JSON_parse ''no json'' = Inl ''Unexpected token''"
  by (simp_all add: trim_def is_space_def strip_fences_def startsWith_def match_braces_def
        sample_JSON_parse_def sample_text_def)

lemma trim_fenced_sample_text: "trim fenced_sample_text = fenced_sample_text"
  by (rule trim_unchanged) (simp_all add: fenced_sample_text_def is_space_def)

theorem parser_steps_witness:
  "strip_fences fenced_sample_text = sample_text
   \<and> parseAIResponse sample_JSON_parse fenced_sample_text = Inr (sample_response 1 ''14:00'')
   \<and> match_braces two_objects = Some two_objects
   \<and> parseAIResponse sample_JSON_parse two_objects = Inl (SyntaxError ''Unexpected token'')
   \<and> match_braces ''no json'' = None
   \<and> parseAIResponse sample_JSON_parse ''no json'' = Inl NoValidJson
   \<and> (\<exists>pre post. two_objects = pre @ two_objects @ post \<and> CHR ''{'' \<notin> set pre
          \<and> CHR ''}'' \<notin> set post \<and> two_objects \<noteq> [] \<and> hd two_objects = CHR ''{''
          \<and> last two_objects = CHR ''}'')
   \<and> strip_fences two_objects = two_objects
   \<and> strip_fences (''```'' @ [CHR 0x0A] @ ''{}'' @ [CHR 0x0A] @ ''```'') = ''{}''"
proof -
  have sp: "\<forall>c \<in> set [CHR 0x0A] \<union> set [CHR 0x0A]. is_space c"
    by (simp add: is_space_def)
  have ns: "\<not> is_space (CHR ''{'')" "\<not> is_space (CHR ''}'')"
    by (simp_all add: is_space_def)
  note a = parser_steps [where parse = sample_JSON_parse and raw = fenced_sample_text
             and v = "sample_response 1 ''14:00''" and ws = "[CHR 0x0A]" and ws' = "[CHR 0x0A]"
             and body = sample_text]
  have "strip_fences (''```json'' @ [CHR 0x0A] @ sample_text @ [CHR 0x0A] @ ''```'') = sample_text"
    using a sp ns sample_text_ends by presburger
  then have p1: "strip_fences fenced_sample_text = sample_text"
    by (simp only: fenced_sample_text_def)
  have "sample_JSON_parse (strip_fences (trim fenced_sample_text)) = Inr (sample_response 1 ''14:00'')"
    by (simp add: trim_fenced_sample_text p1 sample_JSON_parse_def)
  with a have p2: "parseAIResponse sample_JSON_parse fenced_sample_text = Inr (sample_response 1 ''14:00'')"
    by presburger
  note b = parser_steps [where parse = sample_JSON_parse and raw = two_objects
             and block = two_objects and msg = "''Unexpected token''" and s = two_objects
             and ws = "[CHR 0x0A]" and ws' = "[CHR 0x0A]" and body = "''{}''"]
  have "isl (sample_JSON_parse (strip_fences (trim two_objects)))"
    by (simp add: two_objects_plain)
  with b two_objects_plain(3,5)
  have p3: "parseAIResponse sample_JSON_parse two_objects = Inl (SyntaxError ''Unexpected token'')"
    by presburger
  from b two_objects_plain(3)
  have p4: "\<exists>pre post. two_objects = pre @ two_objects @ post \<and> CHR ''{'' \<notin> set pre
          \<and> CHR ''}'' \<notin> set post \<and> two_objects \<noteq> [] \<and> hd two_objects = CHR ''{''
          \<and> last two_objects = CHR ''}''"
    by presburger
  have "\<not> startsWith two_objects ''```''"
    by (simp add: startsWith_def two_objects_def)
  with b have p5: "strip_fences two_objects = two_objects"
    by presburger
  have "''{}'' \<noteq> []" "\<not> is_space (hd ''{}'')" "\<not> is_space (last ''{}'')"
      "hd ([CHR 0x0A] @ ''{}'') \<noteq> CHR ''j''"
    by (simp_all add: is_space_def)
  with b sp have p6: "strip_fences (''```'' @ [CHR 0x0A] @ ''{}'' @ [CHR 0x0A] @ ''```'') = ''{}''"
    by presburger
  note c = parser_steps [where parse = sample_JSON_parse and raw = "''no json''"]
  have "isl (sample_JSON_parse (strip_fences (trim ''no json'')))"
    by (simp add: no_json_plain)
  with c no_json_plain(3)
  have p7: "parseAIResponse sample_JSON_parse ''no json'' = Inl NoValidJson"
    by presburger
  from p1 p2 two_objects_plain(3) p3 no_json_plain(3) p7 p4 p5 p6 show ?thesis
    by (intro conjI)
qed

end
